theory Spec2Isabelle
  imports Main "HOL-Library.Sublist"
begin

section \<open>Strings and the alphabet\<close>

text \<open>
  The program is the Python module \<^verbatim>\<open>goo.gl.py\<close> (class \<^verbatim>\<open>GoogleShortenerScanner\<close>).
  A Python \<^verbatim>\<open>str\<close> is modelled as a \<open>string\<close> (a list of characters): one \<open>char\<close> is one
  Python character, with a code point below 256. Python integers are
  \<open>int\<close>; quantities that the code never lets go negative (list positions, ordinals,
  counters) are \<open>nat\<close>. Logging is not modelled: it does not change any value the
  functions return or store.
\<close>

definition ascii_lowercase :: string where
  "ascii_lowercase = ''abcdefghijklmnopqrstuvwxyz''"

definition ascii_uppercase :: string where
  "ascii_uppercase = ''ABCDEFGHIJKLMNOPQRSTUVWXYZ''"

definition ascii_letters :: string where
  "ascii_letters = ascii_lowercase @ ascii_uppercase"

definition digits :: string where
  "digits = ''0123456789''"

text \<open>\<^verbatim>\<open>chars = string.ascii_letters + string.digits\<close> (in \<^verbatim>\<open>scan_url_combinations\<close>).\<close>

definition chars :: string where
  "chars = ascii_letters @ digits"

text \<open>\<^verbatim>\<open>s.index(c)\<close>: the first position of \<open>c\<close>; \<open>None\<close> stands for ValueError.\<close>

fun str_index :: "'a list \<Rightarrow> 'a \<Rightarrow> nat option" where
  "str_index [] c = None"
| "str_index (x # xs) c = (if x = c then Some 0 else map_option Suc (str_index xs c))"

section \<open>Combinatorial sequencer\<close>

text \<open>
  \<^verbatim>\<open>_url_suffix_to_index\<close>: the loop \<^verbatim>\<open>for i, char in enumerate(suffix)\<close>. The arguments are
  the alphabet, the length, the position \<open>i\<close>, the characters still to read and the
  running \<open>index\<close>. A character outside the alphabet makes \<^verbatim>\<open>chars.index\<close> raise
  ValueError, which the function catches and answers with \<open>0\<close>.
\<close>

fun index_loop :: "string \<Rightarrow> nat \<Rightarrow> nat \<Rightarrow> string \<Rightarrow> nat \<Rightarrow> nat" where
  "index_loop cs len i [] index = index"
| "index_loop cs len i (c # rest) index =
     (case str_index cs c of
        None \<Rightarrow> 0
      | Some char_index \<Rightarrow>
          index_loop cs len (i + 1) rest (index + char_index * (length cs) ^ (len - 1 - i)))"

definition url_suffix_to_index :: "string \<Rightarrow> string \<Rightarrow> int \<Rightarrow> nat" where
  "url_suffix_to_index sfx cs len =
     (if int (length sfx) \<noteq> len then 0
      else index_loop cs (nat len) 0 sfx 0)"

text \<open>
  \<^verbatim>\<open>_get_next_url_suffix\<close>: the loop \<^verbatim>\<open>for i in range(length - 1, -1, -1)\<close> over the list
  \<^verbatim>\<open>suffix_list\<close> with the variable \<^verbatim>\<open>carry\<close>. The first numeric argument is \<open>i + 1\<close>: the
  number of positions not yet visited. \<open>None\<close> is the \<^verbatim>\<open>return None\<close> of the ValueError
  handler; \<^verbatim>\<open>break\<close> leaves the loop with the list as it is.
\<close>

fun next_loop :: "string \<Rightarrow> nat \<Rightarrow> string \<Rightarrow> nat \<Rightarrow> (string \<times> nat) option" where
  "next_loop cs 0 suffix_list carry = Some (suffix_list, carry)"
| "next_loop cs (Suc i) suffix_list carry =
     (if carry = 0 then Some (suffix_list, carry)
      else
        (case str_index cs (suffix_list ! i) of
           None \<Rightarrow> None
         | Some current_index \<Rightarrow>
             (let new_index = current_index + carry in
              if new_index < length cs
              then next_loop cs i (suffix_list[i := cs ! new_index]) 0
              else next_loop cs i (suffix_list[i := cs ! 0]) 1)))"

definition get_next_url_suffix :: "string \<Rightarrow> string \<Rightarrow> int \<Rightarrow> string option" where
  "get_next_url_suffix current_suffix cs len =
     (if int (length current_suffix) \<noteq> len then None
      else
        (case next_loop cs (nat len) current_suffix 1 of
           None \<Rightarrow> None
         | Some (suffix_list, carry) \<Rightarrow> if carry = 1 then None else Some suffix_list))"

text \<open>
  \<^verbatim>\<open>itertools.product(chars, repeat=length)\<close> followed by \<^verbatim>\<open>''.join(combo)\<close>: every string
  of the given length over the alphabet, the leftmost position varying slowest. A
  negative \<^verbatim>\<open>repeat\<close> raises ValueError (\<open>None\<close>).
\<close>

fun product_repeat :: "'a list \<Rightarrow> nat \<Rightarrow> 'a list list" where
  "product_repeat cs 0 = [[]]"
| "product_repeat cs (Suc n) = concat (map (\<lambda>c. map ((#) c) (product_repeat cs n)) cs)"

definition itertools_product :: "'a list \<Rightarrow> int \<Rightarrow> 'a list list option" where
  "itertools_product cs repeat =
     (if repeat < 0 then None else Some (product_repeat cs (nat repeat)))"

text \<open>
  Modelled from the spec: the repository has no \<^verbatim>\<open>decode\<close> function (the scan walks
  \<^verbatim>\<open>itertools.product\<close> instead). Section 4.1 of the specification: \<^verbatim>\<open>decode(ordinal, length)\<close>
  is the inverse mapping, padded with the alphabet's first symbol, and fails with
  \<^verbatim>\<open>OutOfRange\<close> if \<^verbatim>\<open>ordinal >= alphabetSize^length\<close>. The same section names the
  failures \<^verbatim>\<open>InvalidSymbol\<close> and \<^verbatim>\<open>LengthMismatch\<close> of \<^verbatim>\<open>encode\<close>.
\<close>

datatype sequencer_error = InvalidSymbol | LengthMismatch | OutOfRange

fun decode_digits :: "string \<Rightarrow> nat \<Rightarrow> nat \<Rightarrow> string" where
  "decode_digits cs 0 ordinal = []"
| "decode_digits cs (Suc k) ordinal =
     decode_digits cs k (ordinal div length cs) @ [cs ! (ordinal mod length cs)]"

definition decode :: "nat \<Rightarrow> nat \<Rightarrow> sequencer_error + string" where
  "decode ordinal len =
     (if ordinal \<ge> length chars ^ len then Inl OutOfRange
      else Inr (decode_digits chars len ordinal))"

text \<open>
  The specification's \<^verbatim>\<open>encode\<close>, following its words, for comparison with
  \<^verbatim>\<open>_url_suffix_to_index\<close>: the base-62 ordinal, most significant symbol first, failing
  with \<^verbatim>\<open>LengthMismatch\<close> or \<^verbatim>\<open>InvalidSymbol\<close>.
\<close>

fun ordinal_of :: "string \<Rightarrow> string \<Rightarrow> nat" where
  "ordinal_of cs [] = 0"
| "ordinal_of cs (c # rest) =
     the (str_index cs c) * length cs ^ length rest + ordinal_of cs rest"

definition encode_spec :: "string \<Rightarrow> nat \<Rightarrow> sequencer_error + nat" where
  "encode_spec identifier len =
     (if length identifier \<noteq> len then Inl LengthMismatch
      else if \<not> set identifier \<subseteq> set chars then Inl InvalidSymbol
      else Inr (ordinal_of chars identifier))"

text \<open>
  Enumeration order: \<open>precedes cs x y\<close> holds when \<open>x\<close> comes before \<open>y\<close> in the
  lexicographic order induced by the positions of the symbols in \<open>cs\<close>.
\<close>

fun precedes :: "string \<Rightarrow> string \<Rightarrow> string \<Rightarrow> bool" where
  "precedes cs [] [] = False"
| "precedes cs [] (b # y) = True"
| "precedes cs (a # x) [] = False"
| "precedes cs (a # x) (b # y) =
     (if a = b then precedes cs x y
      else the (str_index cs a) < the (str_index cs b))"

section \<open>String operations of the Python library\<close>

text \<open>
  \<^verbatim>\<open>str.lower()\<close>: the letters A to Z are mapped to a to z. The program compares
  lower-cased text only with ASCII phrases and names, and the pattern literals are ASCII;
  no character below 256 outside A to Z has an ASCII lower-case form, so the others are
  left as they are.
\<close>

definition lower_char :: "char \<Rightarrow> char" where
  "lower_char c =
     (case str_index ascii_uppercase c of None \<Rightarrow> c | Some i \<Rightarrow> ascii_lowercase ! i)"

definition str_lower :: "string \<Rightarrow> string" where
  "str_lower s = map lower_char s"

text \<open>
  The characters below 256 for which \<^verbatim>\<open>str.isspace()\<close> holds (they are also the ones that
  \<^verbatim>\<open>\s\<close> matches in a \<^verbatim>\<open>str\<close> pattern): tab, line feed, vertical tab, form feed, carriage
  return, the separators 0x1C to 0x1F, the space, the next-line character 0x85 and the
  no-break space 0xA0.
\<close>

definition is_space :: "char \<Rightarrow> bool" where
  "is_space c \<longleftrightarrow>
     c \<in> set [CHR 0x09, CHR 0x0A, CHR 0x0B, CHR 0x0C, CHR 0x0D,
               CHR 0x1C, CHR 0x1D, CHR 0x1E, CHR 0x1F, CHR 0x20, CHR 0x85, CHR 0xA0]"

definition is_digit :: "char \<Rightarrow> bool" where
  "is_digit c \<longleftrightarrow> c \<in> set digits"

text \<open>\<^verbatim>\<open>str.strip()\<close>: leading and trailing whitespace removed.\<close>

definition str_strip :: "string \<Rightarrow> string" where
  "str_strip s = rev (dropWhile is_space (rev (dropWhile is_space s)))"

text \<open>
  \<^verbatim>\<open>s.replace(old, new)\<close> and \<^verbatim>\<open>s.split(sep)\<close>: occurrences are found from left to right
  and do not overlap. Every call in the program passes a non-empty literal as \<open>old\<close> or
  \<open>sep\<close>; the case of an empty one does not arise, and the model leaves the string as it
  is there.
\<close>

function str_replace :: "string \<Rightarrow> string \<Rightarrow> string \<Rightarrow> string" where
  "str_replace old new s =
     (if old = [] \<or> s = [] then s
      else if prefix old s then new @ str_replace old new (drop (length old) s)
      else hd s # str_replace old new (tl s))"
  by pat_completeness auto
termination
  by (relation "measure (\<lambda>(old, new, s). length s)") auto

declare str_replace.simps [simp del]

function split_loop :: "string \<Rightarrow> string \<Rightarrow> string \<Rightarrow> string list" where
  "split_loop sep s acc =
     (if s = [] then [rev acc]
      else if sep \<noteq> [] \<and> prefix sep s then rev acc # split_loop sep (drop (length sep) s) []
      else split_loop sep (tl s) (hd s # acc))"
  by pat_completeness auto
termination
  by (relation "measure (\<lambda>(sep, s, acc). length s)") auto

declare split_loop.simps [simp del]

definition str_split :: "string \<Rightarrow> string \<Rightarrow> string list" where
  "str_split s sep = split_loop sep s []"

text \<open>\<^verbatim>\<open>str(n)\<close> for an integer, as used by the f-strings of \<^verbatim>\<open>resolve_goo_gl_url\<close>.\<close>

function str_nat :: "nat \<Rightarrow> string" where
  "str_nat n = (if n < 10 then [digits ! n] else str_nat (n div 10) @ [digits ! (n mod 10)])"
  by pat_completeness auto
termination
  by (relation "measure (\<lambda>n. n)") auto

declare str_nat.simps [simp del]

definition str_int :: "int \<Rightarrow> string" where
  "str_int i = (if i < 0 then CHR ''-'' # str_nat (nat (- i)) else str_nat (nat i))"

section \<open>Regular expressions of the warning-page extractor\<close>

text \<open>
  The patterns of \<^verbatim>\<open>_extract_redirect_from_warning_page\<close> are sequences of single-character
  items (a literal, a class, \<^verbatim>\<open>\s\<close>, \<^verbatim>\<open>\d\<close>), each taken once or under \<^verbatim>\<open>?\<close>, \<^verbatim>\<open>*\<close> or \<^verbatim>\<open>+\<close>,
  with one capturing group. \<open>re_match\<close> is the backtracking matcher of Python's
  \<^verbatim>\<open>re\<close> on such patterns: a greedy quantifier takes as many characters as it can and
  gives them back one at a time when the rest of the pattern fails. The pair carried
  along holds the input left at the start and at the end of the group.
\<close>

datatype quantifier = Once | Optional | ZeroOrMore | OneOrMore

datatype re_item = Atom quantifier "char \<Rightarrow> bool" | GroupStart | GroupEnd

type_synonym regex = "re_item list"

fun re_match :: "regex \<Rightarrow> string \<Rightarrow> string \<times> string \<Rightarrow> (string \<times> string \<times> string) option" where
  "re_match [] s g = Some (s, g)"
| "re_match (GroupStart # r) s g = re_match r s (s, snd g)"
| "re_match (GroupEnd # r) s g = re_match r s (fst g, s)"
| "re_match (Atom Once p # r) s g =
     (case s of [] \<Rightarrow> None | c # cs \<Rightarrow> if p c then re_match r cs g else None)"
| "re_match (Atom Optional p # r) s g =
     (case s of
        [] \<Rightarrow> re_match r s g
      | c # cs \<Rightarrow>
          if p c
          then (case re_match r cs g of Some m \<Rightarrow> Some m | None \<Rightarrow> re_match r s g)
          else re_match r s g)"
| "re_match (Atom ZeroOrMore p # r) s g =
     (case s of
        [] \<Rightarrow> re_match r s g
      | c # cs \<Rightarrow>
          if p c
          then (case re_match (Atom ZeroOrMore p # r) cs g of
                  Some m \<Rightarrow> Some m
                | None \<Rightarrow> re_match r s g)
          else re_match r s g)"
| "re_match (Atom OneOrMore p # r) s g =
     (case s of
        [] \<Rightarrow> None
      | c # cs \<Rightarrow> if p c then re_match (Atom ZeroOrMore p # r) cs g else None)"

text \<open>
  \<^verbatim>\<open>re.findall(pattern, string, re.IGNORECASE)\<close> for a pattern with one group: the text of
  the group for every match, the matches found from left to right without overlap.
  \<open>skip\<close> counts the characters of the last match still to be passed over. Every pattern
  of the program contains a literal, so a match is never empty.
\<close>

fun findall_from :: "regex \<Rightarrow> string \<Rightarrow> nat \<Rightarrow> string list" where
  "findall_from re [] skip = []"
| "findall_from re (c # cs) skip =
     (if skip > 0 then findall_from re cs (skip - 1)
      else
        (case re_match re (c # cs) (c # cs, c # cs) of
           None \<Rightarrow> findall_from re cs 0
         | Some (rest, a, b) \<Rightarrow>
             take (length a - length b) a
               # findall_from re cs (length (c # cs) - length rest - 1)))"

definition findall :: "regex \<Rightarrow> string \<Rightarrow> string list" where
  "findall re s = findall_from re s 0"

text \<open>Building blocks: a literal under \<^verbatim>\<open>re.IGNORECASE\<close>, classes, and the two quote characters.\<close>

definition dquote :: char where
  "dquote = CHR 0x22"

definition squote :: char where
  "squote = CHR 0x27"

definition backslash :: char where
  "backslash = CHR 0x5C"

definition lit :: "string \<Rightarrow> regex" where
  "lit s = map (\<lambda>c. Atom Once (\<lambda>x. lower_char x = lower_char c)) s"

definition not_in :: "string \<Rightarrow> char \<Rightarrow> bool" where
  "not_in excluded c \<longleftrightarrow> c \<notin> set excluded"

definition not_in_nor_space :: "string \<Rightarrow> char \<Rightarrow> bool" where
  "not_in_nor_space excluded c \<longleftrightarrow> c \<notin> set excluded \<and> \<not> is_space c"

definition one_of :: "string \<Rightarrow> char \<Rightarrow> bool" where
  "one_of allowed c \<longleftrightarrow> c \<in> set allowed"

text \<open>\<^verbatim>\<open>"KEY":"([^"]+)"\<close>\<close>

definition json_pattern :: "string \<Rightarrow> regex" where
  "json_pattern key =
     lit ([dquote] @ key @ [dquote] @ '':'' @ [dquote])
     @ [GroupStart, Atom OneOrMore (not_in [dquote]), GroupEnd]
     @ lit [dquote]"

text \<open>\<^verbatim>\<open>KEY=([^&\s\'"]+)\<close>\<close>

definition query_pattern :: "string \<Rightarrow> regex" where
  "query_pattern key =
     lit (key @ ''='')
     @ [GroupStart, Atom OneOrMore (not_in_nor_space [CHR ''&'', squote, dquote]), GroupEnd]"

text \<open>\<^verbatim>\<open>href="(https?://[^"]+)"[^>]*\<close>, the common start of the three link patterns.\<close>

definition href_prefix :: regex where
  "href_prefix =
     lit (''href='' @ [dquote])
     @ [GroupStart] @ lit ''http'' @ [Atom Optional (\<lambda>x. lower_char x = CHR ''s'')] @ lit ''://''
     @ [Atom OneOrMore (not_in [dquote]), GroupEnd]
     @ lit [dquote] @ [Atom ZeroOrMore (not_in ''>'')]"

text \<open>\<^verbatim>\<open>LHS\s*=\s*["\']([^"\']+)["\']\<close>\<close>

definition assign_pattern :: "string \<Rightarrow> regex" where
  "assign_pattern lhs =
     lit lhs @ [Atom ZeroOrMore is_space] @ lit ''='' @ [Atom ZeroOrMore is_space]
     @ [Atom Once (one_of [dquote, squote]),
        GroupStart, Atom OneOrMore (not_in [dquote, squote]), GroupEnd,
        Atom Once (one_of [dquote, squote])]"

text \<open>The list \<^verbatim>\<open>patterns\<close>, in the order of the source.\<close>

definition patterns :: "regex list" where
  "patterns =
     [json_pattern ''redirect_url'',
      json_pattern ''url'',
      json_pattern ''target'',
      query_pattern ''redirect_url'',
      query_pattern ''url'',
      query_pattern ''continue'',
      href_prefix @ lit ''>Continue'',
      href_prefix @ lit ''>'' @ [Atom ZeroOrMore is_space] @ lit ''Continue'',
      href_prefix @ lit (''class='' @ [dquote]) @ [Atom ZeroOrMore (not_in [dquote])]
        @ lit ''continue'' @ [Atom ZeroOrMore (not_in [dquote])] @ lit [dquote],
      assign_pattern ''window.location.href'',
      assign_pattern ''window.location'',
      assign_pattern ''location.href'',
      lit (''content='' @ [dquote] @ ''0;url='')
        @ [GroupStart, Atom OneOrMore (not_in [dquote]), GroupEnd] @ lit [dquote],
      lit (''content='' @ [dquote]) @ [Atom OneOrMore is_digit] @ lit '';''
        @ [Atom ZeroOrMore is_space] @ lit ''url=''
        @ [GroupStart, Atom OneOrMore (not_in [dquote]), GroupEnd] @ lit [dquote]]"

text \<open>
  The fallback pattern \<^verbatim>\<open>https?://[^\s<>"\']+\<close>. It has no group, so \<^verbatim>\<open>findall\<close> returns the
  whole match: the group markers stand around the whole pattern.
\<close>

definition bare_url_pattern :: regex where
  "bare_url_pattern =
     [GroupStart] @ lit ''http'' @ [Atom Optional (\<lambda>x. lower_char x = CHR ''s'')] @ lit ''://''
     @ [Atom OneOrMore (not_in_nor_space [CHR ''<'', CHR ''>'', dquote, squote]), GroupEnd]"

section \<open>Warning-page extractor\<close>

text \<open>
  \<^verbatim>\<open>is_valid_redirect_url\<close>, the inner function of \<^verbatim>\<open>_extract_redirect_from_warning_page\<close>.
  \<open>skip_domain_loop\<close> is its loop \<^verbatim>\<open>for domain in skip_domains\<close>; it answers \<open>True\<close>
  when the loop leaves the function with \<^verbatim>\<open>return False\<close>. Python's \<^verbatim>\<open>domain in url_lower\<close>
  is the substring test \<open>sublist\<close>.
\<close>

definition skip_domains :: "string list" where
  "skip_domains =
     [''google.com'', ''goo.gl'', ''googleapis.com'', ''googleusercontent.com'',
      ''gstatic.com'', ''googletagmanager.com'', ''googlesyndication.com'',
      ''doubleclick.net'', ''googlebots.com'']"

fun skip_domain_loop :: "string list \<Rightarrow> string \<Rightarrow> bool" where
  "skip_domain_loop [] url_lower = False"
| "skip_domain_loop (domain # rest) url_lower =
     (if sublist domain url_lower then True else skip_domain_loop rest url_lower)"

definition is_valid_redirect_url :: "string \<Rightarrow> bool" where
  "is_valid_redirect_url url =
     (if url = [] \<or> length url < 10 then False
      else if skip_domain_loop skip_domains (str_lower url) then False
      else if \<not> (prefix ''http://'' url \<or> prefix ''https://'' url) then False
      else True)"

text \<open>
  The body of the loop over the matches of one pattern, up to the validity test:
  \<^verbatim>\<open>strip\<close>, the four \<^verbatim>\<open>replace\<close> calls and \<^verbatim>\<open>html.unescape\<close>. The function \<^verbatim>\<open>html.unescape\<close>
  belongs to Python's standard library (it decodes about 2200 named entities and the
  numeric references); it is a parameter of the model.
\<close>

definition decode_match :: "(string \<Rightarrow> string) \<Rightarrow> string \<Rightarrow> string" where
  "decode_match unescape m =
     (let url = str_strip m;
          url = str_replace (backslash # ''u0026'') ''&'' (str_replace (backslash # ''u003d'') ''='' url);
          url = str_replace ''%26'' ''&'' (str_replace ''%3D'' ''='' url)
      in unescape url)"

text \<open>\<^verbatim>\<open>for match in matches\<close>: \<open>Some url\<close> is \<^verbatim>\<open>return url\<close>, \<open>None\<close> the end of the loop.\<close>

fun match_loop :: "(string \<Rightarrow> string) \<Rightarrow> string list \<Rightarrow> string option" where
  "match_loop unescape [] = None"
| "match_loop unescape (m # matches) =
     (let url = decode_match unescape m in
      if is_valid_redirect_url url then Some url else match_loop unescape matches)"

text \<open>\<^verbatim>\<open>for pattern in patterns\<close>.\<close>

fun pattern_loop :: "(string \<Rightarrow> string) \<Rightarrow> regex list \<Rightarrow> string \<Rightarrow> string option" where
  "pattern_loop unescape [] html_content = None"
| "pattern_loop unescape (pattern # rest) html_content =
     (case match_loop unescape (findall pattern html_content) of
        Some url \<Rightarrow> Some url
      | None \<Rightarrow> pattern_loop unescape rest html_content)"

text \<open>\<^verbatim>\<open>for url in all_urls\<close>, which builds the list \<^verbatim>\<open>valid_urls\<close>.\<close>

fun fallback_loop :: "(string \<Rightarrow> string) \<Rightarrow> string list \<Rightarrow> string list \<Rightarrow> string list" where
  "fallback_loop unescape [] valid_urls = valid_urls"
| "fallback_loop unescape (url # all_urls) valid_urls =
     (if is_valid_redirect_url url
      then fallback_loop unescape all_urls (valid_urls @ [unescape url])
      else fallback_loop unescape all_urls valid_urls)"

definition extract_redirect_from_warning_page :: "(string \<Rightarrow> string) \<Rightarrow> string \<Rightarrow> string option" where
  "extract_redirect_from_warning_page unescape html_content =
     (case pattern_loop unescape patterns html_content of
        Some url \<Rightarrow> Some url
      | None \<Rightarrow>
          (let all_urls = findall bare_url_pattern html_content;
               valid_urls = fallback_loop unescape all_urls []
           in if valid_urls \<noteq> [] then Some (valid_urls ! 0) else None))"

text \<open>
  The validity rule in the words of the specification (section 4.3), for comparison with
  \<open>is_valid_redirect_url\<close>: the length is at least 10, the candidate begins with an HTTP
  or HTTPS scheme, and its host does not belong to the deny-list. The host is the text
  between the scheme and the first \<^verbatim>\<open>/\<close>, \<^verbatim>\<open>?\<close> or \<^verbatim>\<open>#\<close>; it belongs to the deny-list when
  it is a listed domain or a subdomain of one.
\<close>

definition url_host :: "string \<Rightarrow> string" where
  "url_host url =
     takeWhile (\<lambda>c. c \<notin> set ''/?#'')
       (if prefix ''https://'' url then drop 8 url
        else if prefix ''http://'' url then drop 7 url
        else url)"

definition host_denied :: "string \<Rightarrow> bool" where
  "host_denied host \<longleftrightarrow>
     (\<exists>d \<in> set skip_domains. str_lower host = d \<or> suffix (CHR ''.'' # d) (str_lower host))"

definition is_valid_spec :: "string \<Rightarrow> bool" where
  "is_valid_spec url \<longleftrightarrow>
     length url \<ge> 10 \<and> (prefix ''http://'' url \<or> prefix ''https://'' url)
     \<and> \<not> host_denied (url_host url)"

text \<open>
  The extractor in the words of claim C6, for comparison: both tiers decode a candidate
  before the validity check.
\<close>

definition extract_spec :: "(string \<Rightarrow> string) \<Rightarrow> string \<Rightarrow> string option" where
  "extract_spec unescape html_content =
     (case find is_valid_redirect_url
             (map (decode_match unescape) (concat (map (\<lambda>p. findall p html_content) patterns))) of
        Some url \<Rightarrow> Some url
      | None \<Rightarrow>
          find is_valid_redirect_url
            (map (decode_match unescape) (findall bare_url_pattern html_content)))"

section \<open>Resolution classifier\<close>

text \<open>
  The outcome of \<^verbatim>\<open>self.session.get(short_url, allow_redirects=False, timeout=10)\<close>: a
  response, or an exception. \<open>RequestException\<close> stands for the exceptions of
  \<^verbatim>\<open>requests\<close> that are neither a \<^verbatim>\<open>Timeout\<close> nor a \<^verbatim>\<open>ConnectionError\<close>; the string is
  \<^verbatim>\<open>str(e)\<close>. \<open>OtherException\<close> is any exception that \<^verbatim>\<open>resolve_goo_gl_url\<close> does not catch.
\<close>

datatype exc =
    Timeout
  | ConnectionError
  | RequestException string
  | ValueError string
  | KeyError string
  | KeyboardInterrupt
  | OtherException string

text \<open>The attributes of a \<^verbatim>\<open>requests\<close> response that are read (\<open>resp_text\<close> is \<^verbatim>\<open>response.text\<close>, \<open>resp_url\<close> is \<^verbatim>\<open>response.url\<close>).\<close>

record response =
  status_code :: int
  headers :: "string \<rightharpoonup> string"
  resp_text :: string
  resp_url :: string

datatype reply = Response response | Raises exc

text \<open>
  The world outside the program: the HTTP session, the clock read by \<^verbatim>\<open>time.strftime\<close>
  when the result for a short URL is saved, and \<^verbatim>\<open>html.unescape\<close>.
\<close>

record env =
  session_get :: "string \<Rightarrow> reply"
  strftime :: "string \<Rightarrow> string"
  html_unescape :: "string \<Rightarrow> string"

text \<open>
  \<^verbatim>\<open>resolve_goo_gl_url\<close>. \<open>Inr\<close> is the returned pair, \<open>Inl\<close> an exception that leaves the
  function. \<^verbatim>\<open>if redirect_url:\<close> holds for a string that is not empty.
\<close>

definition resolve_goo_gl_url :: "env \<Rightarrow> string \<Rightarrow> exc + string \<times> string" where
  "resolve_goo_gl_url e short_url =
     (case session_get e short_url of
        Response r \<Rightarrow>
          if status_code r = 200 then
            (let html_content = resp_text r in
             if sublist ''Dynamic Link Not Found'' html_content
                \<or> sublist ''not found'' (str_lower html_content)
             then Inr (''NOT_FOUND'', ''link_not_found'')
             else if sublist ''This link will no longer work'' html_content
                \<or> sublist ''goo.gl links will no longer function'' html_content
             then
               (case extract_redirect_from_warning_page (html_unescape e) html_content of
                  Some redirect_url \<Rightarrow>
                    if redirect_url \<noteq> [] then Inr (redirect_url, ''resolved_from_warning'')
                    else Inr (''WARNING_PAGE_NO_EXTRACT'', ''warning_page_parse_failed'')
                | None \<Rightarrow> Inr (''WARNING_PAGE_NO_EXTRACT'', ''warning_page_parse_failed''))
             else Inr (resp_url r, ''direct_200''))
          else if status_code r \<in> set [301, 302, 303, 307, 308] then
            (case headers r ''Location'' of
               Some redirect_url \<Rightarrow>
                 if redirect_url \<noteq> [] then Inr (redirect_url, ''direct_redirect'')
                 else Inr (''NO_LOCATION_HEADER'', ''redirect_without_location'')
             | None \<Rightarrow> Inr (''NO_LOCATION_HEADER'', ''redirect_without_location''))
          else if status_code r = 404 then Inr (''NOT_FOUND'', ''404_error'')
          else Inr (''HTTP_'' @ str_int (status_code r), ''http_error_'' @ str_int (status_code r))
      | Raises Timeout \<Rightarrow> Inr (''TIMEOUT'', ''request_timeout'')
      | Raises ConnectionError \<Rightarrow> Inr (''CONNECTION_ERROR'', ''connection_failed'')
      | Raises (RequestException msg) \<Rightarrow> Inr (''REQUEST_ERROR: '' @ msg, ''request_exception'')
      | Raises (ValueError msg) \<Rightarrow> Inr (''UNEXPECTED_ERROR: '' @ msg, ''unexpected_error'')
      | Raises (KeyError msg) \<Rightarrow> Inr (''UNEXPECTED_ERROR: '' @ msg, ''unexpected_error'')
      | Raises KeyboardInterrupt \<Rightarrow> Inl KeyboardInterrupt
      | Raises (OtherException msg) \<Rightarrow> Inl (OtherException msg))"

section \<open>Result ledger\<close>

text \<open>
  The CSV file at \<^verbatim>\<open>self.output_file\<close>: absent, unreadable (decoding or parsing its
  contents raises), or the list of its rows as \<^verbatim>\<open>csv.reader\<close> yields them. A row is the list of
  its fields; \<^verbatim>\<open>csv.writer\<close> appends one row.
\<close>

datatype csv_file = Absent | Unreadable | Rows "string list list"

text \<open>
  The loop \<^verbatim>\<open>for row in reader\<close> of \<^verbatim>\<open>_find_last_processed_url\<close> with its variable
  \<^verbatim>\<open>last_url\<close>.
\<close>

fun last_url_loop :: "string list list \<Rightarrow> int \<Rightarrow> string option \<Rightarrow> string option" where
  "last_url_loop [] len last_url = last_url"
| "last_url_loop (row # rows) len last_url =
     (if length row \<ge> 1 then
        (let short_url = row ! 0 in
         if sublist ''/goo.gl/'' short_url then
           (let sfx = last (str_split short_url ''/goo.gl/'') in
            if int (length sfx) = len then last_url_loop rows len (Some sfx)
            else last_url_loop rows len last_url)
         else last_url_loop rows len last_url)
      else last_url_loop rows len last_url)"

text \<open>
  \<^verbatim>\<open>_find_last_processed_url\<close>. On a file without any row \<^verbatim>\<open>next(reader)\<close> raises
  StopIteration, which the handler \<^verbatim>\<open>except Exception\<close> turns into \<open>None\<close>, as it does for
  an unreadable file. \<^verbatim>\<open>if last_url:\<close> holds for a string that is not empty.
\<close>

definition find_last_processed_url :: "csv_file \<Rightarrow> int \<Rightarrow> string option" where
  "find_last_processed_url output_file len =
     (case output_file of
        Absent \<Rightarrow> None
      | Unreadable \<Rightarrow> None
      | Rows [] \<Rightarrow> None
      | Rows (header # rows) \<Rightarrow>
          (case last_url_loop rows len None of
             None \<Rightarrow> None
           | Some last_url \<Rightarrow> if last_url \<noteq> [] then Some last_url else None))"

text \<open>
  What the loop reads from one row (the lines from \<^verbatim>\<open>if len(row) >= 1\<close> to the length
  test): the last piece of \<^verbatim>\<open>row[0].split('/goo.gl/')\<close>, for a row whose first field
  contains \<^verbatim>\<open>/goo.gl/\<close>.
\<close>

definition row_suffix :: "string list \<Rightarrow> string option" where
  "row_suffix row =
     (if length row \<ge> 1 \<and> sublist ''/goo.gl/'' (row ! 0)
      then Some (last (str_split (row ! 0) ''/goo.gl/'')) else None)"

text \<open>
  The identifier of a record in the words of claim C3, for comparison: the text after
  the last occurrence of the separator in the field (\<open>None\<close> when there is no
  occurrence).
\<close>

fun text_after_last :: "string \<Rightarrow> string \<Rightarrow> string option" where
  "text_after_last sep [] = (if sep = [] then Some [] else None)"
| "text_after_last sep (c # s) =
     (case text_after_last sep s of
        Some t \<Rightarrow> Some t
      | None \<Rightarrow> if prefix sep (c # s) then Some (drop (length sep) (c # s)) else None)"

definition record_identifier :: "string list \<Rightarrow> string option" where
  "record_identifier row =
     (if row = [] then None else text_after_last ''/goo.gl/'' (row ! 0))"

section \<open>Scan driver\<close>

text \<open>
  The fields of \<^verbatim>\<open>GoogleShortenerScanner\<close> that the scan reads or writes; \<open>output_file\<close>
  holds the contents of the file at that path. The session is part of the environment,
  and \<^verbatim>\<open>delay\<close> only sets the length of \<^verbatim>\<open>time.sleep\<close>.
\<close>

record scanner =
  output_file :: csv_file
  skip_404 :: bool
  processed_count :: nat
  found_count :: nat

text \<open>\<^verbatim>\<open>open(self.output_file, 'a')\<close> followed by \<^verbatim>\<open>writer.writerow(row)\<close>.\<close>

fun append_row :: "csv_file \<Rightarrow> string list \<Rightarrow> csv_file" where
  "append_row Absent row = Rows [row]"
| "append_row Unreadable row = Unreadable"
| "append_row (Rows rows) row = Rows (rows @ [row])"

definition save_result :: "env \<Rightarrow> scanner \<Rightarrow> string \<Rightarrow> string \<Rightarrow> string \<Rightarrow> scanner" where
  "save_result e s short_url destination_url status =
     (if skip_404 s \<and> status \<in> set [''404_error'', ''link_not_found''] then s
      else s\<lparr>output_file :=
              append_row (output_file s) [short_url, destination_url, status, strftime e short_url]\<rparr>)"

text \<open>
  \<^verbatim>\<open>__init__\<close> with \<^verbatim>\<open>_initialize_csv\<close>: the file gets its header row if it does not exist,
  and both counters start at zero.
\<close>

definition initialize_csv :: "csv_file \<Rightarrow> csv_file" where
  "initialize_csv f =
     (case f of
        Absent \<Rightarrow> Rows [[''short_url'', ''destination_url'', ''status'', ''timestamp'']]
      | _ \<Rightarrow> f)"

definition init :: "csv_file \<Rightarrow> bool \<Rightarrow> scanner" where
  "init f skip =
     \<lparr>output_file = initialize_csv f, skip_404 = skip, processed_count = 0, found_count = 0\<rparr>"

text \<open>
  The body of the loop of \<^verbatim>\<open>scan_url_combinations\<close> for one identifier, after the skip to
  the start position: resolve, save, update the counters.
\<close>

definition process_suffix :: "env \<Rightarrow> scanner \<Rightarrow> string \<Rightarrow> exc + scanner" where
  "process_suffix e s url_suffix =
     (let short_url = ''https://goo.gl/'' @ url_suffix in
      case resolve_goo_gl_url e short_url of
        Inl x \<Rightarrow> Inl x
      | Inr (destination_url, status) \<Rightarrow>
          (let s = save_result e s short_url destination_url status;
               s = s\<lparr>processed_count := processed_count s + 1\<rparr>;
               s = (if status \<notin> set [''link_not_found'', ''404_error'']
                    then s\<lparr>found_count := found_count s + 1\<rparr> else s)
           in Inr s))"

text \<open>The status tag that the resolution of one identifier yields, if it returns.\<close>

definition status_of :: "env \<Rightarrow> string \<Rightarrow> string option" where
  "status_of e url_suffix =
     (case resolve_goo_gl_url e (''https://goo.gl/'' @ url_suffix) of
        Inl x \<Rightarrow> None
      | Inr (destination_url, status) \<Rightarrow> Some status)"

text \<open>
  \<^verbatim>\<open>for combo in itertools.product(chars, repeat=length)\<close> with the flag \<^verbatim>\<open>found_start\<close>. A
  KeyboardInterrupt (here: one that arrives during the request) ends the loop and the
  function returns; any other exception leaves the function.
\<close>

fun scan_loop :: "env \<Rightarrow> string option \<Rightarrow> string list \<Rightarrow> bool \<Rightarrow> scanner \<Rightarrow> exc + scanner" where
  "scan_loop e start_from [] found_start s = Inr s"
| "scan_loop e start_from (url_suffix # rest) found_start s =
     (if \<not> found_start \<and> Some url_suffix \<noteq> start_from
      then scan_loop e start_from rest False s
      else
        (case process_suffix e s url_suffix of
           Inl KeyboardInterrupt \<Rightarrow> Inr s
         | Inl x \<Rightarrow> Inl x
         | Inr s' \<Rightarrow> scan_loop e start_from rest True s'))"

text \<open>
  \<^verbatim>\<open>scan_url_combinations\<close>. \<open>resume_point\<close> is the auto-resume block at its start. The
  value of \<^verbatim>\<open>_url_suffix_to_index\<close> computed there is only logged. A negative length makes
  \<^verbatim>\<open>itertools.product\<close> raise ValueError.
\<close>

definition resume_point :: "scanner \<Rightarrow> int \<Rightarrow> string option \<Rightarrow> string option" where
  "resume_point s len start_from =
     (case start_from of
        Some given \<Rightarrow> Some given
      | None \<Rightarrow>
          (case find_last_processed_url (output_file s) len of
             None \<Rightarrow> None
           | Some last_url \<Rightarrow>
               (case get_next_url_suffix last_url chars len of
                  None \<Rightarrow> None
                | Some next_url \<Rightarrow> if next_url \<noteq> [] then Some next_url else None)))"

definition scan_url_combinations :: "env \<Rightarrow> scanner \<Rightarrow> int \<Rightarrow> string option \<Rightarrow> exc + scanner" where
  "scan_url_combinations e s len start_from =
     (let start_from = resume_point s len start_from in
      case itertools_product chars len of
        None \<Rightarrow> Inl (ValueError ''repeat argument cannot be negative'')
      | Some combos \<Rightarrow> scan_loop e start_from combos (start_from = None) s)"

section \<open>Example inputs\<close>

text \<open>
  \<^verbatim>\<open>html.unescape\<close> returns a string without an ampersand unchanged; none of the
  example pages below contains one.
\<close>

definition unescape_plain :: "string \<Rightarrow> string" where
  "unescape_plain s = s"

text \<open>
  \<^verbatim>\<open>html.unescape\<close> on a string whose only character references are \<^verbatim>\<open>&#46;\<close>, the
  reference of the full stop.
\<close>

definition unescape_dot :: "string \<Rightarrow> string" where
  "unescape_dot s = str_replace ''&#46;'' ''.'' s"

text \<open>A warning page whose only URL is a bare token with such a reference in its host.\<close>

definition escaped_host_page :: string where
  "escaped_host_page = ''This link will no longer work https://goo&#46;gl/abc''"

text \<open>An environment in which every request has the same outcome.\<close>

definition env_of :: "reply \<Rightarrow> env" where
  "env_of r =
     \<lparr>session_get = (\<lambda>short_url. r),
      strftime = (\<lambda>short_url. ''2025-01-01 00:00:00''),
      html_unescape = unescape_plain\<rparr>"

text \<open>An environment in which one short URL redirects and every other one answers 404.\<close>

definition sample_get :: "string \<Rightarrow> reply" where
  "sample_get short_url =
     (if short_url = ''https://goo.gl/b''
      then Response \<lparr>status_code = 301, headers = [''Location'' \<mapsto> ''https://example.org/x''],
                      resp_text = [], resp_url = short_url\<rparr>
      else Response \<lparr>status_code = 404, headers = Map.empty, resp_text = [],
                      resp_url = short_url\<rparr>)"

definition sample_env :: env where
  "sample_env =
     \<lparr>session_get = sample_get,
      strftime = (\<lambda>short_url. ''2025-01-01 00:00:00''),
      html_unescape = unescape_plain\<rparr>"

text \<open>A ledger whose records are not in ordinal order.\<close>

definition sample_ledger :: csv_file where
  "sample_ledger =
     Rows [[''short_url'', ''destination_url'', ''status'', ''timestamp''],
           [''https://goo.gl/aaaaab'', ''NOT_FOUND'', ''404_error'', ''2025-01-01 00:00:01''],
           [''https://goo.gl/aaaaaa'', ''NOT_FOUND'', ''404_error'', ''2025-01-01 00:00:02''],
           [''https://goo.gl/abc'', ''https://example.org/x'', ''direct_redirect'',
            ''2025-01-01 00:00:03'']]"

text \<open>
  A page that carries the not-found phrase, the warning phrase and a destination in the
  \<^verbatim>\<open>redirect_url\<close> field.
\<close>

definition not_found_warning_page :: string where
  "not_found_warning_page =
     ''<h1>Dynamic Link Not Found</h1><p>This link will no longer work</p>''
     @ ''{'' @ [dquote] @ ''redirect_url'' @ [dquote] @ '':'' @ [dquote]
     @ ''https://example.org/x'' @ [dquote] @ ''}''"

section \<open>Properties of the sequencer\<close>

lemma str_index_Some_iff:
  "str_index cs c = Some i \<Longrightarrow> i < length cs \<and> cs ! i = c \<and> c \<notin> set (take i cs)"
  by (induction cs arbitrary: i) (auto split: if_splits)

lemma str_index_None_iff: "str_index cs c = None \<longleftrightarrow> c \<notin> set cs"
  by (induction cs) auto

lemma str_index_mem:
  "c \<in> set cs \<Longrightarrow> \<exists>i. str_index cs c = Some i \<and> i < length cs \<and> cs ! i = c"
  using str_index_None_iff [of cs c] str_index_Some_iff [of cs c]
  by (cases "str_index cs c") auto

lemma str_index_nth:
  "distinct cs \<Longrightarrow> i < length cs \<Longrightarrow> str_index cs (cs ! i) = Some i"
proof (induction cs arbitrary: i)
  case Nil
  then show ?case by simp
next
  case (Cons x xs)
  then show ?case by (cases i) auto
qed

lemma index_loop_valid:
  "set rest \<subseteq> set cs \<Longrightarrow> i + length rest = len \<Longrightarrow>
   index_loop cs len i rest index = index + ordinal_of cs rest"
proof (induction rest arbitrary: i index)
  case Nil
  then show ?case by simp
next
  case (Cons c rest)
  from Cons.prems obtain k where k: "str_index cs c = Some k"
    using str_index_mem [of c cs] by auto
  have e: "len - 1 - i = length rest" using Cons.prems by simp
  have "index_loop cs len (i + 1) rest (index + k * length cs ^ length rest)
        = index + k * length cs ^ length rest + ordinal_of cs rest"
    using Cons.prems by (intro Cons.IH) auto
  then show ?case using k e by simp
qed

lemma index_loop_invalid:
  "\<not> set rest \<subseteq> set cs \<Longrightarrow> index_loop cs len i rest index = 0"
proof (induction rest arbitrary: i index)
  case Nil
  then show ?case by simp
next
  case (Cons c rest)
  show ?case
  proof (cases "str_index cs c")
    case None
    then show ?thesis by simp
  next
    case (Some k)
    then have "c \<in> set cs" using str_index_None_iff [of cs c] by auto
    then have "\<not> set rest \<subseteq> set cs" using Cons.prems by auto
    then show ?thesis using Some Cons.IH by simp
  qed
qed

lemma ordinal_of_less:
  "set x \<subseteq> set cs \<Longrightarrow> ordinal_of cs x < length cs ^ length x"
proof (induction x)
  case Nil
  then show ?case by simp
next
  case (Cons c x)
  from Cons.prems obtain k where k: "str_index cs c = Some k" "k < length cs"
    using str_index_mem [of c cs] by auto
  let ?b = "length cs"
  have "k * ?b ^ length x + ordinal_of cs x < k * ?b ^ length x + ?b ^ length x"
    using Cons by simp
  also have "\<dots> = (k + 1) * ?b ^ length x" by simp
  also have "\<dots> \<le> ?b * ?b ^ length x"
    using k(2) by (intro mult_le_mono1) simp
  finally show ?case using k by simp
qed

lemma digit_div: "k < (b::nat) \<Longrightarrow> (a * b + k) div b = a"
  by (simp add: add.commute)

lemma digit_mod: "k < (b::nat) \<Longrightarrow> (a * b + k) mod b = k"
  by simp

lemma carry_pow: "0 < (b::nat) \<Longrightarrow> (x * b = b ^ Suc n) = (x = b ^ n)"
  by (simp add: mult.commute)

lemma ordinal_of_snoc:
  "ordinal_of cs (p @ [c]) = ordinal_of cs p * length cs + the (str_index cs c)"
  by (induction p) (auto simp: algebra_simps)

lemma decode_digits_ordinal_of:
  "set x \<subseteq> set cs \<Longrightarrow> decode_digits cs (length x) (ordinal_of cs x) = x"
proof (induction x rule: rev_induct)
  case Nil
  then show ?case by simp
next
  case (snoc c p)
  from snoc.prems obtain k where k: "str_index cs c = Some k" "k < length cs" "cs ! k = c"
    using str_index_mem [of c cs] by auto
  have ih: "decode_digits cs (length p) (ordinal_of cs p) = p" using snoc by simp
  have d: "(ordinal_of cs p * length cs + k) div length cs = ordinal_of cs p"
    and m: "(ordinal_of cs p * length cs + k) mod length cs = k"
    using k(2) by (simp_all only: digit_div digit_mod)
  show ?case using k ih d m by (simp add: ordinal_of_snoc)
qed

lemma precedes_ordinal_of:
  "precedes cs x y \<Longrightarrow> length x = length y \<Longrightarrow> set x \<subseteq> set cs \<Longrightarrow> set y \<subseteq> set cs \<Longrightarrow>
   ordinal_of cs x < ordinal_of cs y"
proof (induction cs x y rule: precedes.induct)
  case (4 cs a x b y)
  show ?case
  proof (cases "a = b")
    case True
    then show ?thesis using 4 by simp
  next
    case False
    from "4.prems" obtain j k where j: "str_index cs a = Some j" and k: "str_index cs b = Some k"
      using str_index_mem [of a cs] str_index_mem [of b cs] by auto
    let ?p = "length cs ^ length y"
    have lt: "j < k" using "4.prems"(1) False j k by simp
    have "ordinal_of cs x < ?p" using ordinal_of_less [of x cs] "4.prems" by simp
    then have "j * ?p + ordinal_of cs x < (j + 1) * ?p" by simp
    also have "\<dots> \<le> k * ?p" using lt by (intro mult_le_mono1) simp
    finally show ?thesis using j k "4.prems" by simp
  qed
qed simp_all

lemma next_loop_carry0: "next_loop cs n sl 0 = Some (sl, 0)"
  by (cases n) simp_all

lemma next_loop_valid:
  "set p \<subseteq> set cs \<Longrightarrow> distinct cs \<Longrightarrow>
   next_loop cs (length p) (p @ s) 1 =
     Some (if ordinal_of cs p + 1 = length cs ^ length p
           then (replicate (length p) (cs ! 0) @ s, 1)
           else (decode_digits cs (length p) (ordinal_of cs p + 1) @ s, 0))"
proof (induction p arbitrary: s rule: rev_induct)
  case Nil
  then show ?case by simp
next
  case (snoc c p)
  let ?b = "length cs"
  let ?n = "length p"
  from snoc.prems obtain k where k: "str_index cs c = Some k" "k < ?b" "cs ! k = c"
    using str_index_mem [of c cs] by auto
  have sub: "set p \<subseteq> set cs" using snoc.prems by simp
  have bound: "ordinal_of cs p < ?b ^ ?n" using ordinal_of_less [OF sub] .
  have ord: "ordinal_of cs (p @ [c]) = ordinal_of cs p * ?b + k"
    using k by (simp add: ordinal_of_snoc)
  have nth: "((p @ [c]) @ s) ! ?n = c" by (simp add: nth_append)
  show ?case
  proof (cases "k + 1 < ?b")
    case True
    have upd: "((p @ [c]) @ s)[?n := cs ! (k + 1)] = p @ cs ! (k + 1) # s"
      by (simp add: list_update_append)
    have step: "next_loop cs (length (p @ [c])) ((p @ [c]) @ s) 1 = Some (p @ cs ! (k + 1) # s, 0)"
      using k True nth upd by (simp add: next_loop_carry0 del: append_assoc)
    have d: "(ordinal_of cs p * ?b + k + 1) div ?b = ordinal_of cs p"
      and m: "(ordinal_of cs p * ?b + k + 1) mod ?b = k + 1"
      using digit_div [OF True, of "ordinal_of cs p"] digit_mod [OF True, of "ordinal_of cs p"]
      by (simp_all only: add.assoc)
    have "ordinal_of cs p * ?b + (k + 1) < ordinal_of cs p * ?b + ?b" using True by simp
    also have "\<dots> = (ordinal_of cs p + 1) * ?b" by simp
    also have "\<dots> \<le> ?b ^ ?n * ?b" using bound by (intro mult_le_mono1) simp
    finally have ne: "ordinal_of cs (p @ [c]) + 1 \<noteq> ?b ^ length (p @ [c])"
      using ord by (simp add: mult.commute)
    have "decode_digits cs (length (p @ [c])) (ordinal_of cs (p @ [c]) + 1) = p @ [cs ! (k + 1)]"
      using ord d m decode_digits_ordinal_of [OF sub] by simp
    then show ?thesis using step ne by simp
  next
    case False
    then have kb: "k + 1 = ?b" using k(2) by simp
    have upd: "((p @ [c]) @ s)[?n := cs ! 0] = p @ cs ! 0 # s"
      by (simp add: list_update_append)
    have step: "next_loop cs (length (p @ [c])) ((p @ [c]) @ s) 1
                = next_loop cs ?n (p @ cs ! 0 # s) 1"
      using k False nth upd by (simp del: append_assoc)
    have ih: "next_loop cs ?n (p @ cs ! 0 # s) 1 =
       Some (if ordinal_of cs p + 1 = ?b ^ ?n
             then (replicate ?n (cs ! 0) @ cs ! 0 # s, 1)
             else (decode_digits cs ?n (ordinal_of cs p + 1) @ cs ! 0 # s, 0))"
      using snoc.IH [OF sub snoc.prems(2)] by simp
    have ord1: "ordinal_of cs (p @ [c]) + 1 = (ordinal_of cs p + 1) * ?b"
      using ord kb by (simp add: algebra_simps)
    have bpos: "0 < ?b" using k(2) by (cases cs) simp_all
    have eq: "(ordinal_of cs (p @ [c]) + 1 = ?b ^ length (p @ [c])) = (ordinal_of cs p + 1 = ?b ^ ?n)"
      using carry_pow [OF bpos, of "ordinal_of cs p + 1" ?n] by (simp only: ord1 length_append_singleton)
    have "decode_digits cs (Suc ?n) ((ordinal_of cs p + 1) * ?b)
              = decode_digits cs ?n (ordinal_of cs p + 1) @ [cs ! 0]"
      using bpos by simp
    then have dd: "decode_digits cs (length (p @ [c])) (ordinal_of cs (p @ [c]) + 1)
              = decode_digits cs ?n (ordinal_of cs p + 1) @ [cs ! 0]"
      by (simp only: ord1 length_append_singleton)
    show ?thesis
      unfolding step ih eq dd by (simp add: replicate_append_same)
  qed
qed

lemma distinct_chars: "distinct chars"
  by (simp add: chars_def ascii_letters_def ascii_lowercase_def ascii_uppercase_def digits_def)

lemma length_chars: "length chars = 62"
  by (simp add: chars_def ascii_letters_def ascii_lowercase_def ascii_uppercase_def digits_def)

lemma chars_index_9: "str_index chars CHR ''9'' = Some 61"
  by (simp add: chars_def ascii_letters_def ascii_lowercase_def ascii_uppercase_def digits_def)

lemma chars_first: "chars ! 0 = CHR ''a''"
  by (simp add: chars_def ascii_letters_def ascii_lowercase_def ascii_uppercase_def digits_def)

lemma last_chars: "last chars = CHR ''9''"
  by (simp add: chars_def ascii_letters_def ascii_lowercase_def ascii_uppercase_def digits_def)

lemma url_suffix_to_index_valid:
  "set x \<subseteq> set cs \<Longrightarrow> url_suffix_to_index x cs (int (length x)) = ordinal_of cs x"
  using index_loop_valid [of x cs 0 "length x" 0] by (simp add: url_suffix_to_index_def)

lemma url_suffix_to_index_invalid:
  "int (length x) \<noteq> len \<or> \<not> set x \<subseteq> set cs \<Longrightarrow> url_suffix_to_index x cs len = 0"
  using index_loop_invalid [of x cs "nat len" 0 0] by (auto simp: url_suffix_to_index_def)

lemma ordinal_of_sum:
  "ordinal_of cs x = (\<Sum>i<length x. the (str_index cs (x ! i)) * length cs ^ (length x - 1 - i))"
proof (induction x)
  case Nil
  then show ?case by simp
next
  case (Cons c x)
  have "(\<Sum>i<length (c # x). the (str_index cs ((c # x) ! i)) * length cs ^ (length (c # x) - 1 - i))
        = the (str_index cs c) * length cs ^ length x
          + (\<Sum>i<length x. the (str_index cs (x ! i)) * length cs ^ (length x - 1 - i))"
    by (simp add: sum.lessThan_Suc_shift del: sum.lessThan_Suc)
  then show ?case using Cons.IH by simp
qed

lemma ordinal_of_replicate_last:
  "str_index cs c = Some k \<Longrightarrow> k + 1 = length cs \<Longrightarrow>
   ordinal_of cs (replicate n c) + 1 = length cs ^ n"
proof (induction n)
  case 0
  then show ?case by simp
next
  case (Suc n)
  have "ordinal_of cs (replicate (Suc n) c) + 1
        = k * length cs ^ n + (ordinal_of cs (replicate n c) + 1)"
    using Suc.prems by simp
  also have "\<dots> = k * length cs ^ n + length cs ^ n"
    using Suc by simp
  also have "\<dots> = (k + 1) * length cs ^ n" by simp
  also have "\<dots> = length cs ^ Suc n" by (simp only: Suc.prems(2) power_Suc)
  finally show ?case .
qed

lemma ordinal_of_inj:
  assumes "set x \<subseteq> set cs" "set y \<subseteq> set cs" "length x = length y"
    and "ordinal_of cs x = ordinal_of cs y"
  shows "x = y"
proof -
  have "x = decode_digits cs (length x) (ordinal_of cs x)"
    using decode_digits_ordinal_of [OF assms(1)] by (rule sym)
  also have "\<dots> = decode_digits cs (length y) (ordinal_of cs y)"
    by (simp only: assms(3,4))
  also have "\<dots> = y" using decode_digits_ordinal_of [OF assms(2)] .
  finally show ?thesis .
qed

lemma concat_blocks_nth:
  "\<forall>c \<in> set cs. length (f c) = m \<Longrightarrow> k < length cs \<Longrightarrow> r < m \<Longrightarrow>
   concat (map f cs) ! (k * m + r) = f (cs ! k) ! r"
proof (induction cs arbitrary: k)
  case Nil
  then show ?case by simp
next
  case (Cons c cs)
  show ?case
  proof (cases k)
    case 0
    then show ?thesis using Cons.prems by (simp add: nth_append)
  next
    case (Suc j)
    have "concat (map f cs) ! (j * m + r) = f (cs ! j) ! r"
      using Cons.prems Suc by (intro Cons.IH) auto
    moreover have "\<not> Suc j * m + r < m" by simp
    moreover have "Suc j * m + r - m = j * m + r" by simp
    ultimately show ?thesis using Cons.prems Suc by (simp add: nth_append del: mult_Suc)
  qed
qed

lemma length_concat_blocks:
  "\<forall>c \<in> set cs. length (f c) = m \<Longrightarrow> length (concat (map f cs)) = length cs * m"
  by (induction cs) auto

lemma length_product_repeat: "length (product_repeat cs n) = length cs ^ n"
proof (induction n)
  case 0
  then show ?case by simp
next
  case (Suc n)
  have "length (concat (map (\<lambda>c. map ((#) c) (product_repeat cs n)) cs)) = length cs * length cs ^ n"
    by (rule length_concat_blocks) (simp add: Suc)
  then show ?case by simp
qed

lemma product_repeat_length: "x \<in> set (product_repeat cs n) \<Longrightarrow> length x = n"
  by (induction n arbitrary: x) auto

lemma product_repeat_nth:
  "set x \<subseteq> set cs \<Longrightarrow> product_repeat cs (length x) ! ordinal_of cs x = x"
proof (induction x)
  case Nil
  then show ?case by simp
next
  case (Cons c x)
  from Cons.prems obtain k where k: "str_index cs c = Some k" "k < length cs" "cs ! k = c"
    using str_index_mem [of c cs] by auto
  let ?m = "length cs ^ length x"
  have r: "ordinal_of cs x < ?m" using ordinal_of_less [of x cs] Cons.prems by simp
  have "concat (map (\<lambda>c. map ((#) c) (product_repeat cs (length x))) cs) ! (k * ?m + ordinal_of cs x)
        = map ((#) (cs ! k)) (product_repeat cs (length x)) ! ordinal_of cs x"
    by (rule concat_blocks_nth) (simp_all add: length_product_repeat k r)
  also have "\<dots> = c # x"
    using r k Cons by (simp add: length_product_repeat)
  finally show ?case using k by simp
qed

text \<open>
  Claim C7, as stated, fails: \<^verbatim>\<open>_url_suffix_to_index\<close> never fails. For an input with a
  character outside the alphabet, and for an input of the wrong length, it returns the
  ordinal \<open>0\<close>, which is also the ordinal of the identifier \<^verbatim>\<open>aa\<close>; the specification's
  \<^verbatim>\<open>encode\<close> answers \<^verbatim>\<open>InvalidSymbol\<close> and \<^verbatim>\<open>LengthMismatch\<close> there.
\<close>

theorem url_suffix_to_index_returns_zero_on_bad_input:
  "encode_spec ''a!'' 2 = Inl InvalidSymbol \<and> url_suffix_to_index ''a!'' chars 2 = 0
   \<and> encode_spec ''abc'' 2 = Inl LengthMismatch \<and> url_suffix_to_index ''abc'' chars 2 = 0
   \<and> encode_spec ''aa'' 2 = Inr 0 \<and> url_suffix_to_index ''aa'' chars 2 = 0"
  by (simp add: encode_spec_def url_suffix_to_index_def chars_def ascii_letters_def
      ascii_lowercase_def ascii_uppercase_def digits_def)

text \<open>
  Claim C7, amended: \<^verbatim>\<open>_url_suffix_to_index\<close> maps a string of the given length over the
  62-symbol alphabet to its base-62 ordinal, most significant symbol first, the digit of
  a symbol being its position in the alphabet; when a character lies outside the alphabet
  or the length of the input differs from the given length, it returns \<open>0\<close> (the handler
  of ValueError and the length guard both \<^verbatim>\<open>return 0\<close>).
\<close>

theorem url_suffix_to_index_base62:
  "(int (length x) = len \<and> set x \<subseteq> set chars \<longrightarrow>
      url_suffix_to_index x chars len
        = (\<Sum>i<length x. the (str_index chars (x ! i)) * 62 ^ (length x - 1 - i)))
   \<and> (int (length x) \<noteq> len \<or> \<not> set x \<subseteq> set chars \<longrightarrow>
      url_suffix_to_index x chars len = 0)"
proof (intro conjI impI)
  assume a: "int (length x) = len \<and> set x \<subseteq> set chars"
  then have "url_suffix_to_index x chars len = ordinal_of chars x"
    using url_suffix_to_index_valid [of x chars] by auto
  then show "url_suffix_to_index x chars len
        = (\<Sum>i<length x. the (str_index chars (x ! i)) * 62 ^ (length x - 1 - i))"
    using ordinal_of_sum [of chars x] by (simp only: length_chars)
next
  assume "int (length x) \<noteq> len \<or> \<not> set x \<subseteq> set chars"
  then show "url_suffix_to_index x chars len = 0"
    by (rule url_suffix_to_index_invalid)
qed

theorem url_suffix_to_index_base62_witness:
  "url_suffix_to_index ''bA9'' chars 3 = 1 * 62 ^ 2 + 26 * 62 + 61
   \<and> url_suffix_to_index ''b-9'' chars 3 = 0
   \<and> url_suffix_to_index ''bA9'' chars 2 = 0"
proof -
  have v: "set ''bA9'' \<subseteq> set chars"
    by (simp add: chars_def ascii_letters_def ascii_lowercase_def ascii_uppercase_def digits_def)
  have nv: "\<not> set ''b-9'' \<subseteq> set chars"
    by (simp add: chars_def ascii_letters_def ascii_lowercase_def ascii_uppercase_def digits_def)
  have s: "(\<Sum>i<length ''bA9''. the (str_index chars (''bA9'' ! i)) * 62 ^ (length ''bA9'' - 1 - i))
           = (1 * 62 ^ 2 + 26 * 62 + 61 :: nat)"
    by (simp add: lessThan_Suc numeral_3_eq_3 chars_def ascii_letters_def ascii_lowercase_def
        ascii_uppercase_def digits_def)
  show ?thesis
    using url_suffix_to_index_base62 [of "''bA9''" 3] url_suffix_to_index_base62 [of "''b-9''" 3]
      url_suffix_to_index_base62 [of "''bA9''" 2] v nv s
    by simp
qed

text \<open>
  Claim C1: for every identifier \<open>x\<close> over the 62-symbol alphabet, of length \<open>L\<close>,
  \<^verbatim>\<open>decode(encode(x), L) = x\<close>, where \<^verbatim>\<open>encode\<close> is \<^verbatim>\<open>_url_suffix_to_index\<close>; the ordinal is
  also the position of \<open>x\<close> in the enumeration \<^verbatim>\<open>itertools.product(chars, repeat=L)\<close> that the
  scan walks; and \<^verbatim>\<open>encode\<close> is strictly monotonic: if \<open>x\<close> precedes \<open>y\<close> in the
  lexicographic order of the alphabet, then \<^verbatim>\<open>encode(x) < encode(y)\<close>.
\<close>

theorem decode_encode_roundtrip_monotonic:
  assumes "set x \<subseteq> set chars"
  shows "decode (url_suffix_to_index x chars (int (length x))) (length x) = Inr x
    \<and> url_suffix_to_index x chars (int (length x)) < length (product_repeat chars (length x))
    \<and> product_repeat chars (length x) ! url_suffix_to_index x chars (int (length x)) = x
    \<and> (\<forall>y. length y = length x \<and> set y \<subseteq> set chars \<and> precedes chars x y \<longrightarrow>
          url_suffix_to_index x chars (int (length x)) < url_suffix_to_index y chars (int (length y)))"
proof -
  have e: "url_suffix_to_index x chars (int (length x)) = ordinal_of chars x"
    using assms by (rule url_suffix_to_index_valid)
  have b: "ordinal_of chars x < length chars ^ length x"
    using assms by (rule ordinal_of_less)
  have d: "decode (ordinal_of chars x) (length x) = Inr x"
    using b decode_digits_ordinal_of [OF assms] by (simp add: decode_def)
  have p: "product_repeat chars (length x) ! ordinal_of chars x = x"
    using assms by (rule product_repeat_nth)
  have m: "ordinal_of chars x < url_suffix_to_index y chars (int (length y))"
    if "length y = length x \<and> set y \<subseteq> set chars \<and> precedes chars x y" for y
    using that precedes_ordinal_of [of chars x y] assms url_suffix_to_index_valid [of y chars]
    by simp
  show ?thesis
    unfolding e using d b p m by (simp add: length_product_repeat)
qed

theorem decode_encode_roundtrip_monotonic_witness:
  "set ''aZ'' \<subseteq> set chars
   \<and> decode (url_suffix_to_index ''aZ'' chars 2) 2 = Inr ''aZ''
   \<and> url_suffix_to_index ''aZ'' chars 2 < url_suffix_to_index ''a0'' chars 2"
proof -
  have v: "set ''aZ'' \<subseteq> set chars" "set ''a0'' \<subseteq> set chars"
    by (simp_all add: chars_def ascii_letters_def ascii_lowercase_def ascii_uppercase_def digits_def)
  have p: "precedes chars ''aZ'' ''a0''"
    by (simp add: chars_def ascii_letters_def ascii_lowercase_def ascii_uppercase_def digits_def)
  have l: "length ''aZ'' = 2" "length ''a0'' = 2" by simp_all
  show ?thesis
    using decode_encode_roundtrip_monotonic [OF v(1), unfolded l] v p l by simp
qed

text \<open>
  Claim C2: for every identifier \<open>x\<close> over the 62-symbol alphabet, of length \<open>L\<close>,
  \<^verbatim>\<open>_get_next_url_suffix\<close> returns the identifier at ordinal \<^verbatim>\<open>encode(x) + 1\<close>, that is
  \<^verbatim>\<open>decode(encode(x) + 1, L)\<close>, and it returns \<open>None\<close> exactly when every position of \<open>x\<close>
  holds the last symbol of the alphabet.
\<close>

theorem get_next_url_suffix_is_successor:
  assumes "set x \<subseteq> set chars"
  shows "(get_next_url_suffix x chars (int (length x)) = None
            \<longleftrightarrow> x = replicate (length x) (last chars))
    \<and> (\<forall>y. get_next_url_suffix x chars (int (length x)) = Some y
            \<longleftrightarrow> decode (url_suffix_to_index x chars (int (length x)) + 1) (length x) = Inr y)"
proof -
  let ?n = "length x"
  let ?o = "ordinal_of chars x"
  let ?top = "replicate ?n (last chars)"
  have e: "url_suffix_to_index x chars (int ?n) = ?o"
    using assms by (rule url_suffix_to_index_valid)
  have b: "?o < length chars ^ ?n"
    using assms by (rule ordinal_of_less)
  have loop: "next_loop chars ?n x 1 =
     Some (if ?o + 1 = length chars ^ ?n
           then (replicate ?n (chars ! 0), 1)
           else (decode_digits chars ?n (?o + 1), 0))"
    using next_loop_valid [OF assms distinct_chars, of "[]"] by simp
  have nx: "get_next_url_suffix x chars (int ?n) =
     (if ?o + 1 = length chars ^ ?n then None else Some (decode_digits chars ?n (?o + 1)))"
    by (simp add: get_next_url_suffix_def loop del: One_nat_def)
  have topv: "set ?top \<subseteq> set chars"
    by (auto simp: last_chars chars_def digits_def)
  have topo: "ordinal_of chars ?top + 1 = length chars ^ ?n"
    by (rule ordinal_of_replicate_last [of chars _ 61]) (simp_all add: last_chars chars_index_9 length_chars)
  have top: "(?o + 1 = length chars ^ ?n) = (x = ?top)"
  proof
    assume "?o + 1 = length chars ^ ?n"
    then have "?o = ordinal_of chars ?top" using topo by simp
    then show "x = ?top" using ordinal_of_inj [OF assms topv] by simp
  next
    assume "x = ?top"
    then show "?o + 1 = length chars ^ ?n" using topo by simp
  qed
  have dec: "decode (?o + 1) ?n =
     (if ?o + 1 = length chars ^ ?n then Inl OutOfRange else Inr (decode_digits chars ?n (?o + 1)))"
    using b by (auto simp: decode_def)
  show ?thesis
    unfolding e nx dec using top by auto
qed

theorem get_next_url_suffix_is_successor_witness:
  "set ''a9'' \<subseteq> set chars \<and> get_next_url_suffix ''a9'' chars 2 = Some ''ba''
   \<and> decode (url_suffix_to_index ''a9'' chars 2 + 1) 2 = Inr ''ba''
   \<and> set ''99'' \<subseteq> set chars \<and> get_next_url_suffix ''99'' chars 2 = None"
proof -
  have v: "set ''a9'' \<subseteq> set chars" "set ''99'' \<subseteq> set chars"
    by (simp_all add: chars_def ascii_letters_def ascii_lowercase_def ascii_uppercase_def digits_def)
  have n: "get_next_url_suffix ''a9'' chars 2 = Some ''ba''"
    by (simp add: get_next_url_suffix_def numeral_2_eq_2 chars_def ascii_letters_def
        ascii_lowercase_def ascii_uppercase_def digits_def)
  have r: "''99'' = replicate (length ''99'') (last chars)"
    by (simp add: last_chars numeral_2_eq_2)
  have l: "length ''a9'' = 2" "length ''99'' = 2" by simp_all
  have d: "decode (url_suffix_to_index ''a9'' chars 2 + 1) 2 = Inr ''ba''"
    using get_next_url_suffix_is_successor [OF v(1), unfolded l of_nat_numeral] n by blast
  have e: "get_next_url_suffix ''99'' chars 2 = None"
    using get_next_url_suffix_is_successor [OF v(2), unfolded l of_nat_numeral] r [unfolded l]
    by blast
  show ?thesis
    using v n d e by (intro conjI)
qed

section \<open>Evaluating the string functions\<close>

text \<open>
  The defining equations of \<open>str_replace\<close> and \<open>split_loop\<close> recurse under a condition;
  these forms recurse on the structure of the string and are safe for the simplifier.
\<close>

lemma str_replace_Nil [simp]: "str_replace old new [] = []"
  by (simp add: str_replace.simps)

lemma str_replace_Cons [simp]:
  "str_replace old new (c # s) =
     (if old = [] then c # s
      else if prefix old (c # s) then new @ str_replace old new (drop (length old) (c # s))
      else c # str_replace old new s)"
  by (subst str_replace.simps) simp

lemma split_loop_Nil [simp]: "split_loop sep [] acc = [rev acc]"
  by (simp add: split_loop.simps)

lemma split_loop_Cons [simp]:
  "split_loop sep (c # s) acc =
     (if sep \<noteq> [] \<and> prefix sep (c # s)
      then rev acc # split_loop sep (drop (length sep) (c # s)) []
      else split_loop sep s (c # acc))"
  by (subst split_loop.simps) simp

lemmas eval_defs =
  patterns_def bare_url_pattern_def href_prefix_def query_pattern_def assign_pattern_def
  json_pattern_def lit_def findall_def dquote_def squote_def backslash_def not_in_def
  not_in_nor_space_def one_of_def is_digit_def digits_def lower_char_def ascii_uppercase_def
  ascii_lowercase_def decode_match_def str_strip_def is_space_def unescape_plain_def
  is_valid_redirect_url_def skip_domains_def str_lower_def sublist_code

section \<open>Properties of the resolution classifier\<close>

text \<open>
  Claim C4, as stated, fails: after a timeout the status tag is \<^verbatim>\<open>request_timeout\<close>, not
  \<^verbatim>\<open>timeout\<close>, and after a connection failure it is \<^verbatim>\<open>connection_failed\<close>, not
  \<^verbatim>\<open>connection_error\<close>.
\<close>

theorem transport_failure_tags_differ:
  "resolve_goo_gl_url (env_of (Raises Timeout)) ''https://goo.gl/aaaaaa''
     = Inr (''TIMEOUT'', ''request_timeout'')
   \<and> resolve_goo_gl_url (env_of (Raises Timeout)) ''https://goo.gl/aaaaaa''
     \<noteq> Inr (''TIMEOUT'', ''timeout'')
   \<and> resolve_goo_gl_url (env_of (Raises ConnectionError)) ''https://goo.gl/aaaaaa''
     = Inr (''CONNECTION_ERROR'', ''connection_failed'')
   \<and> resolve_goo_gl_url (env_of (Raises ConnectionError)) ''https://goo.gl/aaaaaa''
     \<noteq> Inr (''CONNECTION_ERROR'', ''connection_error'')"
  by (simp add: resolve_goo_gl_url_def env_of_def)

text \<open>
  Claim C4, amended: when the HTTP exchange ends in a transport-level failure,
  \<^verbatim>\<open>resolve_goo_gl_url\<close> returns, without raising, the pair \<^verbatim>\<open>("TIMEOUT", "request_timeout")\<close>
  for a timeout, \<^verbatim>\<open>("CONNECTION_ERROR", "connection_failed")\<close> for a connection failure, and
  \<^verbatim>\<open>("REQUEST_ERROR: " + str(e), "request_exception")\<close> for any other exception of the HTTP
  library.
\<close>

theorem transport_failure_classified:
  "(session_get e short_url = Raises Timeout \<longrightarrow>
      resolve_goo_gl_url e short_url = Inr (''TIMEOUT'', ''request_timeout''))
   \<and> (session_get e short_url = Raises ConnectionError \<longrightarrow>
      resolve_goo_gl_url e short_url = Inr (''CONNECTION_ERROR'', ''connection_failed''))
   \<and> (session_get e short_url = Raises (RequestException msg) \<longrightarrow>
      resolve_goo_gl_url e short_url = Inr (''REQUEST_ERROR: '' @ msg, ''request_exception''))"
  by (simp add: resolve_goo_gl_url_def)

theorem transport_failure_classified_witness:
  "resolve_goo_gl_url (env_of (Raises (RequestException ''Invalid URL''))) ''https://goo.gl/aaaaaa''
     = Inr (''REQUEST_ERROR: Invalid URL'', ''request_exception'')"
proof -
  have "session_get (env_of (Raises (RequestException ''Invalid URL''))) ''https://goo.gl/aaaaaa''
        = Raises (RequestException ''Invalid URL'')"
    by (simp add: env_of_def)
  then show ?thesis
    using transport_failure_classified
      [of "env_of (Raises (RequestException ''Invalid URL''))" "''https://goo.gl/aaaaaa''"
          "''Invalid URL''"]
    by simp
qed

text \<open>
  Claim C10: for every HTTP 200 response whose body contains \<^verbatim>\<open>Dynamic Link Not Found\<close>, or
  \<^verbatim>\<open>not found\<close> in any letter case, \<^verbatim>\<open>resolve_goo_gl_url\<close> returns
  \<^verbatim>\<open>("NOT_FOUND", "link_not_found")\<close>, whatever else the body contains: the not-found test
  comes before the warning-page test.
\<close>

theorem not_found_checked_before_warning:
  assumes "session_get e short_url = Response r"
    and "status_code r = 200"
    and "sublist ''Dynamic Link Not Found'' (resp_text r)
         \<or> sublist ''not found'' (str_lower (resp_text r))"
  shows "resolve_goo_gl_url e short_url = Inr (''NOT_FOUND'', ''link_not_found'')"
  using assms by (auto simp: resolve_goo_gl_url_def)

text \<open>
  The page of the witness also contains the warning phrase, and the extractor finds a
  destination in it.
\<close>

theorem not_found_checked_before_warning_witness:
  "sublist ''Dynamic Link Not Found'' not_found_warning_page
   \<and> sublist ''This link will no longer work'' not_found_warning_page
   \<and> extract_redirect_from_warning_page unescape_plain not_found_warning_page
       = Some ''https://example.org/x''
   \<and> resolve_goo_gl_url
        (env_of (Response \<lparr>status_code = 200, headers = Map.empty,
                            resp_text = not_found_warning_page,
                            resp_url = ''https://goo.gl/aaaaaa''\<rparr>))
        ''https://goo.gl/aaaaaa''
       = Inr (''NOT_FOUND'', ''link_not_found'')"
proof -
  let ?r = "\<lparr>status_code = 200, headers = Map.empty, resp_text = not_found_warning_page,
             resp_url = ''https://goo.gl/aaaaaa''\<rparr>"
  have m: "sublist ''Dynamic Link Not Found'' not_found_warning_page"
    by (simp add: not_found_warning_page_def sublist_code)
  have w: "sublist ''This link will no longer work'' not_found_warning_page"
    by (simp add: not_found_warning_page_def sublist_code)
  have x: "extract_redirect_from_warning_page unescape_plain not_found_warning_page
           = Some ''https://example.org/x''"
    by (simp add: not_found_warning_page_def extract_redirect_from_warning_page_def eval_defs)
  have g: "session_get (env_of (Response ?r)) ''https://goo.gl/aaaaaa'' = Response ?r"
    by (simp add: env_of_def)
  have r: "resolve_goo_gl_url (env_of (Response ?r)) ''https://goo.gl/aaaaaa''
           = Inr (''NOT_FOUND'', ''link_not_found'')"
    using not_found_checked_before_warning [OF g] m by simp
  show ?thesis using m w x r by (intro conjI)
qed

section \<open>Properties of the warning-page extractor\<close>

lemma skip_domain_loop_iff:
  "skip_domain_loop ds u \<longleftrightarrow> (\<exists>d \<in> set ds. sublist d u)"
  by (induction ds) auto

text \<open>
  Claim C5, as stated, fails: the host of this candidate is \<^verbatim>\<open>example.com\<close>, outside the
  deny-list, so the rule of the specification accepts it; \<^verbatim>\<open>is_valid_redirect_url\<close>
  rejects it, because \<^verbatim>\<open>goo.gl\<close> occurs in its query string.
\<close>

theorem is_valid_redirect_url_rejects_denied_name_in_query:
  "url_host ''https://example.com/?q=goo.gl'' = ''example.com''
   \<and> \<not> host_denied (url_host ''https://example.com/?q=goo.gl'')
   \<and> is_valid_spec ''https://example.com/?q=goo.gl''
   \<and> \<not> is_valid_redirect_url ''https://example.com/?q=goo.gl''"
  by (simp add: url_host_def host_denied_def is_valid_spec_def is_valid_redirect_url_def
      skip_domains_def str_lower_def lower_char_def ascii_uppercase_def ascii_lowercase_def
      sublist_code suffix_to_prefix)

text \<open>
  Claim C5, amended: a candidate is accepted if and only if its length is at least 10, it
  begins with \<^verbatim>\<open>http://\<close> or \<^verbatim>\<open>https://\<close> (in lower case), and no domain name of the deny-list
  occurs as a substring anywhere in the lower-cased candidate, be it in the host, the
  path or the query string.
\<close>

theorem is_valid_redirect_url_iff:
  "is_valid_redirect_url candidate \<longleftrightarrow>
     length candidate \<ge> 10
     \<and> (prefix ''http://'' candidate \<or> prefix ''https://'' candidate)
     \<and> (\<forall>d \<in> set skip_domains. \<not> sublist d (str_lower candidate))"
  by (auto simp: is_valid_redirect_url_def skip_domain_loop_iff)

theorem is_valid_redirect_url_iff_witness:
  "is_valid_redirect_url ''https://example.org/x''
   \<and> \<not> is_valid_redirect_url ''https://ssl.GStatic.com/a.png''
   \<and> \<not> is_valid_redirect_url ''HTTPS://example.org/x''
   \<and> \<not> is_valid_redirect_url ''http://a''"
proof -
  have a: "\<forall>d \<in> set skip_domains. \<not> sublist d (str_lower ''https://example.org/x'')"
    by (simp add: skip_domains_def str_lower_def lower_char_def ascii_uppercase_def
        ascii_lowercase_def sublist_code)
  have b: "sublist ''gstatic.com'' (str_lower ''https://ssl.GStatic.com/a.png'')"
    by (simp add: str_lower_def lower_char_def ascii_uppercase_def ascii_lowercase_def
        sublist_code)
  have c: "''gstatic.com'' \<in> set skip_domains"
    by (simp add: skip_domains_def)
  have 1: "is_valid_redirect_url ''https://example.org/x''"
    using is_valid_redirect_url_iff [of "''https://example.org/x''"] a by simp
  have 2: "\<not> is_valid_redirect_url ''https://ssl.GStatic.com/a.png''"
    using is_valid_redirect_url_iff [of "''https://ssl.GStatic.com/a.png''"] b c by blast
  have 3: "\<not> is_valid_redirect_url ''HTTPS://example.org/x''"
    using is_valid_redirect_url_iff [of "''HTTPS://example.org/x''"] by simp
  have 4: "\<not> is_valid_redirect_url ''http://a''"
    using is_valid_redirect_url_iff [of "''http://a''"] by simp
  show ?thesis using 1 2 3 4 by (intro conjI)
qed

lemma find_append_case:
  "find P (xs @ ys) = (case find P xs of Some x \<Rightarrow> Some x | None \<Rightarrow> find P ys)"
  by (induction xs) auto

lemma match_loop_find:
  "match_loop unescape ms = find is_valid_redirect_url (map (decode_match unescape) ms)"
  by (induction ms) (auto simp: Let_def)

lemma pattern_loop_find:
  "pattern_loop unescape ps html_content =
     find is_valid_redirect_url
       (map (decode_match unescape) (concat (map (\<lambda>p. findall p html_content) ps)))"
proof (induction ps)
  case Nil
  then show ?case by simp
next
  case (Cons p ps)
  then show ?case
    by (simp add: match_loop_find find_append_case split: option.splits)
qed

lemma fallback_loop_filter:
  "fallback_loop unescape all_urls valid_urls =
     valid_urls @ map unescape (filter is_valid_redirect_url all_urls)"
  by (induction all_urls arbitrary: valid_urls) auto

lemma first_of_filter:
  "(if map f (filter P xs) \<noteq> [] then Some (map f (filter P xs) ! 0) else None)
     = map_option f (find P xs)"
  by (induction xs) auto

text \<open>
  What the two loops of the extractor compute: the first valid decoded match of the
  strategy patterns, taken in their order; failing that, the first bare token that is
  valid as it stands, passed through \<^verbatim>\<open>html.unescape\<close>.
\<close>

lemma extractor_two_tiers:
  "extract_redirect_from_warning_page unescape html_content =
     (case find is_valid_redirect_url
             (map (decode_match unescape)
                (concat (map (\<lambda>p. findall p html_content) patterns))) of
        Some candidate \<Rightarrow> Some candidate
      | None \<Rightarrow>
          map_option unescape
            (find is_valid_redirect_url (findall bare_url_pattern html_content)))"
  using first_of_filter [of unescape is_valid_redirect_url "findall bare_url_pattern html_content"]
  by (simp add: extract_redirect_from_warning_page_def pattern_loop_find fallback_loop_filter
      Let_def split: option.splits)

lemma escaped_host_page_matches:
  "concat (map (\<lambda>p. findall p escaped_host_page) patterns) = []"
  "findall bare_url_pattern escaped_host_page = [''https://goo&#46;gl/abc'']"
  by (simp_all add: escaped_host_page_def eval_defs)

lemma escaped_host_token:
  "is_valid_redirect_url ''https://goo&#46;gl/abc''"
  "unescape_dot ''https://goo&#46;gl/abc'' = ''https://goo.gl/abc''"
  "decode_match unescape_dot ''https://goo&#46;gl/abc'' = ''https://goo.gl/abc''"
  "\<not> is_valid_redirect_url ''https://goo.gl/abc''"
  by (simp_all add: unescape_dot_def eval_defs)

text \<open>
  Claim C6 says that in both tiers every candidate has its escaped separators and HTML
  entities decoded before the validity check. The first tier does so. The fallback tier
  checks the raw token and decodes it afterwards: on a warning page whose only URL is the
  bare token \<^verbatim>\<open>https://goo&#46;gl/abc\<close> the extractor returns \<^verbatim>\<open>https://goo.gl/abc\<close>, a URL
  that \<^verbatim>\<open>is_valid_redirect_url\<close> itself rejects, and the classifier reports it as
  \<^verbatim>\<open>resolved_from_warning\<close>. An extractor that decodes before the check in both tiers
  returns nothing for this page.
\<close>

theorem fallback_returns_url_its_validator_rejects:
  "extract_redirect_from_warning_page unescape_dot escaped_host_page = Some ''https://goo.gl/abc''
   \<and> \<not> is_valid_redirect_url ''https://goo.gl/abc''
   \<and> extract_spec unescape_dot escaped_host_page = None
   \<and> resolve_goo_gl_url
        (env_of (Response \<lparr>status_code = 200, headers = Map.empty,
                            resp_text = escaped_host_page,
                            resp_url = ''https://goo.gl/aaaaaa''\<rparr>)
           \<lparr>html_unescape := unescape_dot\<rparr>)
        ''https://goo.gl/aaaaaa''
       = Inr (''https://goo.gl/abc'', ''resolved_from_warning'')"
proof -
  have x: "extract_redirect_from_warning_page unescape_dot escaped_host_page
           = Some ''https://goo.gl/abc''"
    by (simp add: extractor_two_tiers escaped_host_page_matches escaped_host_token)
  have s: "extract_spec unescape_dot escaped_host_page = None"
    by (simp add: extract_spec_def escaped_host_page_matches escaped_host_token)
  have w: "sublist ''This link will no longer work'' escaped_host_page"
    by (simp add: escaped_host_page_def sublist_code)
  have n: "\<not> sublist ''Dynamic Link Not Found'' escaped_host_page"
    "\<not> sublist ''not found'' (str_lower escaped_host_page)"
    by (simp_all add: escaped_host_page_def sublist_code str_lower_def lower_char_def
        ascii_uppercase_def ascii_lowercase_def)
  have r: "resolve_goo_gl_url
        (env_of (Response \<lparr>status_code = 200, headers = Map.empty,
                            resp_text = escaped_host_page,
                            resp_url = ''https://goo.gl/aaaaaa''\<rparr>)
           \<lparr>html_unescape := unescape_dot\<rparr>)
        ''https://goo.gl/aaaaaa''
       = Inr (''https://goo.gl/abc'', ''resolved_from_warning'')"
    by (simp add: resolve_goo_gl_url_def env_of_def x w n)
  show ?thesis using x escaped_host_token(4) s r by (intro conjI)
qed

text \<open>
  The fallback does not replace the escaped separators either: the token \<^verbatim>\<open>http://x%3D\<close>
  is checked as it stands (length 10) and returned, although its decoded form
  \<^verbatim>\<open>http://x=\<close> is too short to be valid.
\<close>

lemma fallback_skips_separator_decoding:
  "extract_redirect_from_warning_page unescape_plain ''go http://x%3D'' = Some ''http://x%3D''
   \<and> is_valid_redirect_url ''http://x%3D''
   \<and> decode_match unescape_plain ''http://x%3D'' = ''http://x=''
   \<and> \<not> is_valid_redirect_url ''http://x=''
   \<and> extract_spec unescape_plain ''go http://x%3D'' = None"
  by (simp add: extract_redirect_from_warning_page_def extract_spec_def eval_defs)

section \<open>Properties of the result ledger\<close>

lemma last_url_loop_eq:
  "last_url_loop rows len acc =
     (let ids = filter (\<lambda>sfx. int (length sfx) = len) (List.map_filter row_suffix rows)
      in if ids = [] then acc else Some (last ids))"
proof (induction rows arbitrary: acc)
  case Nil
  then show ?case by (simp add: List.map_filter_simps)
next
  case (Cons row rows)
  show ?case
  proof (cases "row_suffix row")
    case None
    then have "last_url_loop (row # rows) len acc = last_url_loop rows len acc"
      by (auto simp: row_suffix_def Let_def split: if_splits)
    then show ?thesis using None Cons.IH by (simp add: List.map_filter_simps)
  next
    case (Some sfx)
    then have s: "length row \<ge> 1" "sublist ''/goo.gl/'' (row ! 0)"
      "sfx = last (str_split (row ! 0) ''/goo.gl/'')"
      by (auto simp: row_suffix_def split: if_splits)
    show ?thesis
    proof (cases "int (length sfx) = len")
      case True
      then have "last_url_loop (row # rows) len acc = last_url_loop rows len (Some sfx)"
        using s by (simp add: Let_def)
      then show ?thesis using Some True Cons.IH by (simp add: List.map_filter_simps Let_def)
    next
      case False
      then have "last_url_loop (row # rows) len acc = last_url_loop rows len acc"
        using s by (simp add: Let_def)
      then show ?thesis using Some False Cons.IH by (simp add: List.map_filter_simps Let_def)
    qed
  qed
qed

lemma split_loop_no_slash:
  "prefix ''/'' sep \<Longrightarrow> CHR ''/'' \<notin> set s \<Longrightarrow> split_loop sep s acc = [rev acc @ s]"
proof (induction s arbitrary: acc)
  case Nil
  then show ?case by simp
next
  case (Cons c s)
  then have "\<not> prefix sep (c # s)" by (cases sep) auto
  then show ?case using Cons by simp
qed

text \<open>
  For a short URL that the scan builds, \<^verbatim>\<open>https://goo.gl/\<close> followed by an identifier over
  the alphabet, the loop reads the identifier back.
\<close>

lemma row_suffix_of_scanned_url:
  assumes "set x \<subseteq> set chars"
  shows "row_suffix ((''https://goo.gl/'' @ x) # more_fields) = Some x"
proof -
  have n: "CHR ''/'' \<notin> set x"
    using assms
    by (auto simp: chars_def ascii_letters_def ascii_lowercase_def ascii_uppercase_def digits_def)
  have "split_loop ''/goo.gl/'' x [] = [x]"
    using split_loop_no_slash [of "''/goo.gl/''" x "[]"] n by simp
  then have "str_split (''https://goo.gl/'' @ x) ''/goo.gl/'' = [''https:/'', x]"
    by (simp add: str_split_def)
  moreover have "sublist ''/goo.gl/'' (''https://goo.gl/'' @ x)"
    by (simp add: sublist_code sublist_Cons_right)
  ultimately show ?thesis by (simp add: row_suffix_def)
qed

text \<open>
  The last piece of \<^verbatim>\<open>split('/goo.gl/')\<close> is the text after the last \<^verbatim>\<open>/goo.gl/\<close> of the
  field, unless two occurrences of the separator overlap.
\<close>

lemma text_after_last_None_iff:
  "sep \<noteq> [] \<Longrightarrow> text_after_last sep s = None \<longleftrightarrow> \<not> sublist sep s"
  by (induction s) (auto simp: sublist_Cons_right split: option.splits)

lemma split_loop_nonempty: "split_loop sep s acc \<noteq> []"
proof (induction s arbitrary: acc)
  case Nil
  then show ?case by simp
next
  case (Cons c s)
  then show ?case by simp
qed

lemma text_after_last_goo_gl:
  assumes "\<not> prefix ''goo.gl/'' r"
  shows "text_after_last ''/goo.gl/'' (''/goo.gl/'' @ r)
         = Some (case text_after_last ''/goo.gl/'' r of Some t \<Rightarrow> t | None \<Rightarrow> r)"
  using assms by (simp split: option.splits)


lemma sublist_drop_front: "sublist xs r \<Longrightarrow> sublist xs (p @ r)"
proof -
  assume "sublist xs r"
  then obtain ps ss where "r = ps @ xs @ ss" by (auto simp: sublist_def)
  then have "p @ r = (p @ ps) @ xs @ ss" by simp
  then show ?thesis unfolding sublist_def by blast
qed

lemma split_last_text_after_last:
  "\<not> sublist ''/goo.gl/goo.gl/'' s \<Longrightarrow>
   last (split_loop ''/goo.gl/'' s acc)
     = (case text_after_last ''/goo.gl/'' s of Some t \<Rightarrow> t | None \<Rightarrow> rev acc @ s)"
proof (induction s arbitrary: acc rule: length_induct)
  case (1 s)
  have IH: "last (split_loop ''/goo.gl/'' ys a)
             = (case text_after_last ''/goo.gl/'' ys of Some t \<Rightarrow> t | None \<Rightarrow> rev a @ ys)"
    if "length ys < length s" "\<not> sublist ''/goo.gl/goo.gl/'' ys" for ys a
    using "1.IH" that by blast
  show ?case
  proof (cases s)
    case Nil
    then show ?thesis by simp
  next
    case (Cons c s')
    show ?thesis
    proof (cases "prefix ''/goo.gl/'' s")
      case True
      then obtain r where r: "s = ''/goo.gl/'' @ r" by (auto simp: prefix_def)
      have nr: "\<not> sublist ''/goo.gl/goo.gl/'' r"
        using "1.prems" sublist_drop_front [of "''/goo.gl/goo.gl/''" r "''/goo.gl/''"] r by blast
      have np: "\<not> prefix ''goo.gl/'' r"
      proof
        assume "prefix ''goo.gl/'' r"
        then obtain q where "r = ''goo.gl/'' @ q" by (auto simp: prefix_def)
        then have "s = ''/goo.gl/goo.gl/'' @ q" using r by simp
        then have "sublist ''/goo.gl/goo.gl/'' s" by (simp only: sublist_append_rightI)
        then show False using "1.prems" by blast
      qed
      have lr: "length r < length s" using r by simp
      have ih: "last (split_loop ''/goo.gl/'' r [])
                = (case text_after_last ''/goo.gl/'' r of Some t \<Rightarrow> t | None \<Rightarrow> r)"
        using IH [OF lr nr, of "[]"] by (simp split: option.splits)
      have sp: "split_loop ''/goo.gl/'' (''/goo.gl/'' @ r) acc = rev acc # split_loop ''/goo.gl/'' r []"
        by simp
      have "last (split_loop ''/goo.gl/'' (''/goo.gl/'' @ r) acc) = last (split_loop ''/goo.gl/'' r [])"
        unfolding sp by (simp add: split_loop_nonempty)
      then show ?thesis
        unfolding r text_after_last_goo_gl [OF np] using ih by simp
    next
      case False
      have ns: "\<not> sublist ''/goo.gl/goo.gl/'' s'"
        using "1.prems" Cons by (simp add: sublist_Cons_right)
      have ls: "length s' < length s" using Cons by simp
      have ih: "last (split_loop ''/goo.gl/'' s' (c # acc))
                = (case text_after_last ''/goo.gl/'' s' of Some t \<Rightarrow> t | None \<Rightarrow> rev (c # acc) @ s')"
        using IH [OF ls ns] .
      have np: "\<not> prefix ''/goo.gl/'' (c # s')" using False Cons by simp
      have sp: "split_loop ''/goo.gl/'' (c # s') acc = split_loop ''/goo.gl/'' s' (c # acc)"
        by (subst split_loop_Cons) (simp only: np simp_thms if_False)
      have ta: "text_after_last ''/goo.gl/'' (c # s')
                = (case text_after_last ''/goo.gl/'' s' of Some t \<Rightarrow> Some t | None \<Rightarrow> None)"
        by (simp only: text_after_last.simps np if_False)
      show ?thesis
        unfolding Cons sp ta ih by (simp split: option.splits)
    qed
  qed
qed

lemma map_filter_cong_set:
  "\<forall>x \<in> set xs. f x = g x \<Longrightarrow> List.map_filter f xs = List.map_filter g xs"
  by (induction xs) (auto simp: List.map_filter_simps split: option.splits)

lemma row_suffix_record_identifier:
  assumes "row \<noteq> [] \<longrightarrow> \<not> sublist ''/goo.gl/goo.gl/'' (row ! 0)"
  shows "row_suffix row = record_identifier row"
proof (cases "row = []")
  case True
  then show ?thesis by (simp add: row_suffix_def record_identifier_def)
next
  case False
  then have no: "\<not> sublist ''/goo.gl/goo.gl/'' (row ! 0)" using assms by blast
  have len: "length row \<ge> 1" using False by (cases row) simp_all
  show ?thesis
  proof (cases "sublist ''/goo.gl/'' (row ! 0)")
    case True
    then obtain t where t: "text_after_last ''/goo.gl/'' (row ! 0) = Some t"
      using text_after_last_None_iff [of "''/goo.gl/''" "row ! 0"] by auto
    have "last (split_loop ''/goo.gl/'' (row ! 0) []) = t"
      using split_last_text_after_last [OF no, of "[]"] by (simp only: t option.case)
    then have "last (str_split (row ! 0) ''/goo.gl/'') = t" by (simp only: str_split_def)
    then show ?thesis
      using True t False len by (simp add: row_suffix_def record_identifier_def)
  next
    case nosep: False
    then have "text_after_last ''/goo.gl/'' (row ! 0) = None"
      using text_after_last_None_iff [of "''/goo.gl/''" "row ! 0"] by simp
    then show ?thesis
      using nosep False by (simp add: row_suffix_def record_identifier_def)
  qed
qed

text \<open>Every short URL that the scan builds satisfies the hypothesis on the first field.\<close>

lemma scanned_url_no_overlap:
  assumes "set x \<subseteq> set chars"
  shows "\<not> sublist ''/goo.gl/goo.gl/'' (''https://goo.gl/'' @ x)"
proof -
  have n: "CHR ''/'' \<notin> set x"
    using assms
    by (auto simp: chars_def ascii_letters_def ascii_lowercase_def ascii_uppercase_def digits_def)
  have a: "\<not> sublist ''/goo.gl/goo.gl/'' x"
    using n set_mono_sublist [of "''/goo.gl/goo.gl/''" x] by auto
  have b: "\<not> prefix ''goo.gl/'' x"
    using n set_mono_prefix [of "''goo.gl/''" x] by auto
  have c: "\<not> prefix ''goo.gl/goo.gl/'' x"
    using n set_mono_prefix [of "''goo.gl/goo.gl/''" x] by auto
  show ?thesis using a b c by (simp add: sublist_Cons_right)
qed

text \<open>
  Claim C3: for every ledger file with a header row followed by records, and a positive
  requested length, \<^verbatim>\<open>_find_last_processed_url\<close> returns the identifier of the last record in
  file order whose identifier has the requested length, not the ordinally-maximum one,
  and \<open>None\<close> when no record has an identifier of that length. The first part takes as
  the identifier of a record what the code reads, the last piece of the first field split
  at \<^verbatim>\<open>/goo.gl/\<close>. The second part takes the text after the last \<^verbatim>\<open>/goo.gl/\<close> in the first
  field, for the ledgers in which no first field holds two overlapping separators, as is
  the case of every row that the scan writes.
\<close>

theorem find_last_processed_url_last_in_file:
  assumes "0 < len"
  shows "find_last_processed_url (Rows (header # rows)) len =
       (let ids = filter (\<lambda>sfx. int (length sfx) = len) (List.map_filter row_suffix rows)
        in if ids = [] then None else Some (last ids))
   \<and> ((\<forall>row \<in> set rows. row \<noteq> [] \<longrightarrow> \<not> sublist ''/goo.gl/goo.gl/'' (row ! 0)) \<longrightarrow>
       find_last_processed_url (Rows (header # rows)) len =
         (let ids = filter (\<lambda>ident. int (length ident) = len)
                      (List.map_filter record_identifier rows)
          in if ids = [] then None else Some (last ids)))"
proof -
  let ?ids = "filter (\<lambda>sfx. int (length sfx) = len) (List.map_filter row_suffix rows)"
  have a: "find_last_processed_url (Rows (header # rows)) len =
       (let ids = ?ids in if ids = [] then None else Some (last ids))"
  proof (cases "?ids = []")
    case True
    then show ?thesis
      by (simp add: find_last_processed_url_def last_url_loop_eq Let_def)
  next
    case False
    then have "last ?ids \<in> set ?ids" by (rule last_in_set)
    then have "int (length (last ?ids)) = len" by simp
    then have "last ?ids \<noteq> []" using assms by auto
    then show ?thesis using False
      by (simp add: find_last_processed_url_def last_url_loop_eq Let_def)
  qed
  have b: "List.map_filter row_suffix rows = List.map_filter record_identifier rows"
    if "\<forall>row \<in> set rows. row \<noteq> [] \<longrightarrow> \<not> sublist ''/goo.gl/goo.gl/'' (row ! 0)"
    using that by (intro map_filter_cong_set) (simp add: row_suffix_record_identifier)
  show ?thesis
  proof (intro conjI impI)
    show "find_last_processed_url (Rows (header # rows)) len =
       (let ids = ?ids in if ids = [] then None else Some (last ids))"
      by (rule a)
  next
    assume "\<forall>row \<in> set rows. row \<noteq> [] \<longrightarrow> \<not> sublist ''/goo.gl/goo.gl/'' (row ! 0)"
    from b [OF this] a
    show "find_last_processed_url (Rows (header # rows)) len =
         (let ids = filter (\<lambda>ident. int (length ident) = len)
                      (List.map_filter record_identifier rows)
          in if ids = [] then None else Some (last ids))"
      by simp
  qed
qed

theorem find_last_processed_url_last_in_file_witness:
  "find_last_processed_url sample_ledger 6 = Some ''aaaaaa''
   \<and> url_suffix_to_index ''aaaaaa'' chars 6 < url_suffix_to_index ''aaaaab'' chars 6
   \<and> find_last_processed_url sample_ledger 4 = None"
proof -
  let ?h = "[''short_url'', ''destination_url'', ''status'', ''timestamp'']"
  let ?rows = "[[''https://goo.gl/aaaaab'', ''NOT_FOUND'', ''404_error'', ''2025-01-01 00:00:01''],
           [''https://goo.gl/aaaaaa'', ''NOT_FOUND'', ''404_error'', ''2025-01-01 00:00:02''],
           [''https://goo.gl/abc'', ''https://example.org/x'', ''direct_redirect'',
            ''2025-01-01 00:00:03'']]"
  have h: "\<forall>row \<in> set ?rows. row \<noteq> [] \<longrightarrow> \<not> sublist ''/goo.gl/goo.gl/'' (row ! 0)"
    by (simp add: sublist_code)
  have ids: "List.map_filter record_identifier ?rows = [''aaaaab'', ''aaaaaa'', ''abc'']"
    by (simp add: List.map_filter_simps record_identifier_def)
  have p6: "(0::int) < 6" and p4: "(0::int) < 4" by simp_all
  have a: "find_last_processed_url sample_ledger 6 = Some ''aaaaaa''"
    using find_last_processed_url_last_in_file [OF p6, of ?h ?rows, THEN conjunct2, THEN mp, OF h]
    unfolding ids sample_ledger_def by simp
  have b: "find_last_processed_url sample_ledger 4 = None"
    using find_last_processed_url_last_in_file [OF p4, of ?h ?rows, THEN conjunct2, THEN mp, OF h]
    unfolding ids sample_ledger_def by simp
  have c: "url_suffix_to_index ''aaaaaa'' chars 6 < url_suffix_to_index ''aaaaab'' chars 6"
    by (simp add: url_suffix_to_index_def chars_def ascii_letters_def ascii_lowercase_def
        ascii_uppercase_def digits_def)
  show ?thesis using a b c by (intro conjI)
qed

text \<open>
  Outside these hypotheses the two readings part: with overlapping separators \<^verbatim>\<open>split\<close>
  takes the occurrences from the left, and for the length 0 the test \<^verbatim>\<open>if last_url:\<close> turns
  the empty identifier into \<open>None\<close>.
\<close>

lemma find_last_processed_url_outside_hypotheses:
  "text_after_last ''/goo.gl/'' ''https://goo.gl/goo.gl/abcdef'' = Some ''abcdef''
   \<and> find_last_processed_url
        (Rows [[''short_url'', ''destination_url'', ''status'', ''timestamp''],
               [''https://goo.gl/goo.gl/abcdef'', ''NOT_FOUND'', ''404_error'',
                ''2025-01-01 00:00:01'']]) 6 = None
   \<and> text_after_last ''/goo.gl/'' ''https://goo.gl/'' = Some []
   \<and> find_last_processed_url
        (Rows [[''short_url'', ''destination_url'', ''status'', ''timestamp''],
               [''https://goo.gl/'', ''NOT_FOUND'', ''404_error'', ''2025-01-01 00:00:01'']]) 0
       = None"
  by (simp add: find_last_processed_url_def str_split_def sublist_code)

section \<open>Properties of the scan driver\<close>

lemma save_result_skip:
  "skip_404 s \<Longrightarrow> status \<in> {''404_error'', ''link_not_found''} \<Longrightarrow>
   save_result e s short_url destination_url status = s"
  by (auto simp: save_result_def)

lemma save_result_fields:
  "skip_404 (save_result e s u d st) = skip_404 s"
  "processed_count (save_result e s u d st) = processed_count s"
  "found_count (save_result e s u d st) = found_count s"
  by (simp_all add: save_result_def)

lemma process_suffix_step:
  assumes "resolve_goo_gl_url e (''https://goo.gl/'' @ x) = Inr (d, st)"
  shows "\<exists>s'. process_suffix e s x = Inr s'
     \<and> processed_count s' = processed_count s + 1
     \<and> found_count s' = found_count s + (if st \<in> {''404_error'', ''link_not_found''} then 0 else 1)
     \<and> (skip_404 s \<and> st \<in> {''404_error'', ''link_not_found''} \<longrightarrow> output_file s' = output_file s)"
  using assms by (auto simp: process_suffix_def Let_def save_result_fields save_result_def)

lemma scan_loop_counts:
  "\<forall>x \<in> set xs. status_of e x \<noteq> None \<Longrightarrow>
   \<exists>s'. scan_loop e start_from xs True s = Inr s'
     \<and> processed_count s' = processed_count s + length xs
     \<and> found_count s' = found_count s
          + length (filter (\<lambda>x. status_of e x \<notin> {Some ''404_error'', Some ''link_not_found''}) xs)"
proof (induction xs arbitrary: s)
  case Nil
  then show ?case by simp
next
  case (Cons x xs)
  from Cons.prems obtain d st where r: "resolve_goo_gl_url e (''https://goo.gl/'' @ x) = Inr (d, st)"
    by (auto simp: status_of_def split: sum.splits)
  from process_suffix_step [OF r, of s] obtain s1 where s1: "process_suffix e s x = Inr s1"
    "processed_count s1 = processed_count s + 1"
    "found_count s1 = found_count s + (if st \<in> {''404_error'', ''link_not_found''} then 0 else 1)"
    by blast
  from Cons.IH [of s1] Cons.prems obtain s' where s': "scan_loop e start_from xs True s1 = Inr s'"
    "processed_count s' = processed_count s1 + length xs"
    "found_count s' = found_count s1
       + length (filter (\<lambda>x. status_of e x \<notin> {Some ''404_error'', Some ''link_not_found''}) xs)"
    by auto
  have st: "status_of e x = Some st" using r by (simp add: status_of_def)
  have "scan_loop e start_from (x # xs) True s = Inr s'" using s1 s' by simp
  moreover have "processed_count s' = processed_count s + length (x # xs)" using s1 s' by simp
  moreover have "found_count s' = found_count s
       + length (filter (\<lambda>x. status_of e x \<notin> {Some ''404_error'', Some ''link_not_found''}) (x # xs))"
    using s1 s' st by auto
  ultimately show ?case by blast
qed

text \<open>
  Claim C8: when the skip-not-found flag is set, \<^verbatim>\<open>save_result\<close> leaves the scanner, and
  with it the ledger file, unchanged for an outcome whose status tag is \<^verbatim>\<open>404_error\<close> or
  \<^verbatim>\<open>link_not_found\<close>; the loop body still adds one to \<^verbatim>\<open>processed_count\<close> for every
  identifier it resolves, and adds one to \<^verbatim>\<open>found_count\<close> exactly when the status tag is
  outside the not-found set. The last part states this for a whole run of the loop over
  identifiers whose resolution returns.
\<close>

theorem skip_not_found_keeps_ledger_and_counters_advance:
  "(skip_404 s \<and> status \<in> {''404_error'', ''link_not_found''} \<longrightarrow>
      save_result e s short_url destination_url status = s)
   \<and> (resolve_goo_gl_url e (''https://goo.gl/'' @ x) = Inr (d, st) \<longrightarrow>
        (\<exists>s'. process_suffix e s x = Inr s'
           \<and> processed_count s' = processed_count s + 1
           \<and> found_count s'
               = found_count s + (if st \<in> {''404_error'', ''link_not_found''} then 0 else 1)
           \<and> (skip_404 s \<and> st \<in> {''404_error'', ''link_not_found''} \<longrightarrow>
                 output_file s' = output_file s)))
   \<and> ((\<forall>x \<in> set xs. status_of e x \<noteq> None) \<longrightarrow>
        (\<exists>s'. scan_loop e start_from xs True s = Inr s'
           \<and> processed_count s' = processed_count s + length xs
           \<and> found_count s' = found_count s
               + length (filter (\<lambda>x. status_of e x \<notin> {Some ''404_error'', Some ''link_not_found''})
                           xs)))"
proof (intro conjI impI)
  assume "skip_404 s \<and> status \<in> {''404_error'', ''link_not_found''}"
  then show "save_result e s short_url destination_url status = s"
    using save_result_skip by blast
next
  assume "resolve_goo_gl_url e (''https://goo.gl/'' @ x) = Inr (d, st)"
  from process_suffix_step [OF this, of s]
  show "\<exists>s'. process_suffix e s x = Inr s'
           \<and> processed_count s' = processed_count s + 1
           \<and> found_count s'
               = found_count s + (if st \<in> {''404_error'', ''link_not_found''} then 0 else 1)
           \<and> (skip_404 s \<and> st \<in> {''404_error'', ''link_not_found''} \<longrightarrow>
                 output_file s' = output_file s)"
    by blast
next
  assume "\<forall>x \<in> set xs. status_of e x \<noteq> None"
  then show "\<exists>s'. scan_loop e start_from xs True s = Inr s'
           \<and> processed_count s' = processed_count s + length xs
           \<and> found_count s' = found_count s
               + length (filter (\<lambda>x. status_of e x \<notin> {Some ''404_error'', Some ''link_not_found''})
                           xs)"
    by (rule scan_loop_counts)
qed

lemma sample_status:
  "status_of sample_env ''a'' = Some ''404_error''"
  "status_of sample_env ''b'' = Some ''direct_redirect''"
  "status_of sample_env ''c'' = Some ''404_error''"
  by (simp_all add: status_of_def resolve_goo_gl_url_def sample_env_def sample_get_def)

theorem skip_not_found_keeps_ledger_and_counters_advance_witness:
  "save_result sample_env (init Absent True) ''https://goo.gl/a'' ''NOT_FOUND'' ''404_error''
     = init Absent True
   \<and> (\<exists>s'. process_suffix sample_env (init Absent True) ''a'' = Inr s'
          \<and> processed_count s' = 1 \<and> found_count s' = 0
          \<and> output_file s' = output_file (init Absent True))
   \<and> (\<exists>s'. scan_loop sample_env None [''a'', ''b'', ''c''] True (init Absent True) = Inr s'
          \<and> processed_count s' = 3 \<and> found_count s' = 1)"
proof -
  note th = skip_not_found_keeps_ledger_and_counters_advance
    [of "init Absent True" "''404_error''" sample_env "''https://goo.gl/a''" "''NOT_FOUND''"
        "''a''" "''NOT_FOUND''" "''404_error''" "[''a'', ''b'', ''c'']" None]
  have k: "skip_404 (init Absent True)" "processed_count (init Absent True) = 0"
    "found_count (init Absent True) = 0"
    by (simp_all add: init_def)
  have r: "resolve_goo_gl_url sample_env (''https://goo.gl/'' @ ''a'')
           = Inr (''NOT_FOUND'', ''404_error'')"
    by (simp add: resolve_goo_gl_url_def sample_env_def sample_get_def)
  have a: "save_result sample_env (init Absent True) ''https://goo.gl/a'' ''NOT_FOUND'' ''404_error''
     = init Absent True"
    using th k(1) by blast
  from th r obtain s1 where s1: "process_suffix sample_env (init Absent True) ''a'' = Inr s1"
    "processed_count s1 = processed_count (init Absent True) + 1"
    "found_count s1 = found_count (init Absent True)
       + (if ''404_error'' \<in> {''404_error'', ''link_not_found''} then 0 else 1)"
    "skip_404 (init Absent True) \<and> ''404_error'' \<in> {''404_error'', ''link_not_found''}
       \<longrightarrow> output_file s1 = output_file (init Absent True)"
    by blast
  have b: "\<exists>s'. process_suffix sample_env (init Absent True) ''a'' = Inr s'
          \<and> processed_count s' = 1 \<and> found_count s' = 0
          \<and> output_file s' = output_file (init Absent True)"
    using s1 k by simp
  have pre: "\<forall>x \<in> set [''a'', ''b'', ''c'']. status_of sample_env x \<noteq> None"
    using sample_status by simp
  have cnt: "length (filter (\<lambda>x. status_of sample_env x \<notin> {Some ''404_error'', Some ''link_not_found''})
               [''a'', ''b'', ''c'']) = 1"
    using sample_status by simp
  from th pre obtain s3 where s3:
    "scan_loop sample_env None [''a'', ''b'', ''c''] True (init Absent True) = Inr s3"
    "processed_count s3 = processed_count (init Absent True) + length [''a'', ''b'', ''c'']"
    "found_count s3 = found_count (init Absent True)
       + length (filter (\<lambda>x. status_of sample_env x \<notin> {Some ''404_error'', Some ''link_not_found''})
           [''a'', ''b'', ''c''])"
    by blast
  have "processed_count s3 = 3" "found_count s3 = 1"
    using s3(2,3) k cnt by simp_all
  then have c: "\<exists>s'. scan_loop sample_env None [''a'', ''b'', ''c''] True (init Absent True) = Inr s'
          \<and> processed_count s' = 3 \<and> found_count s' = 1"
    using s3(1) by blast
  show ?thesis using a b c by (intro conjI)
qed

lemma scan_loop_start_not_found:
  "\<forall>x \<in> set xs. Some x \<noteq> start_from \<Longrightarrow> scan_loop e start_from xs False s = Inr s"
  by (induction xs) auto

lemma scan_length_mismatch:
  assumes "int (length given) \<noteq> len" and "0 \<le> len"
  shows "scan_url_combinations e s len (Some given) = Inr s"
proof -
  have "\<forall>x \<in> set (product_repeat chars (nat len)). Some x \<noteq> Some given"
    using assms product_repeat_length [of _ chars "nat len"] by auto
  then show ?thesis
    using assms(2) scan_loop_start_not_found [of "product_repeat chars (nat len)" "Some given" e s]
    by (simp add: scan_url_combinations_def resume_point_def itertools_product_def)
qed

text \<open>
  Claim C9, as stated, fails: with the scan length 6 and the resume identifier \<^verbatim>\<open>abc\<close>,
  \<^verbatim>\<open>scan_url_combinations\<close> raises nothing and reports nothing to its caller. It walks the
  whole enumeration without reaching the start position and returns normally.
\<close>

theorem resume_length_mismatch_not_surfaced:
  "scan_url_combinations (env_of (Raises Timeout)) (init Absent False) 6 (Some ''abc'')
     = Inr (init Absent False)"
  by (rule scan_length_mismatch) simp_all

text \<open>
  Claim C9, amended: when the caller supplies a resume identifier whose length differs
  from the scan length (a length that is not negative), no error is surfaced:
  \<^verbatim>\<open>scan_url_combinations\<close> passes over every identifier of the enumeration without
  reaching the start position and returns normally, having resolved no identifier,
  written no ledger record and left both counters as they were.
\<close>

theorem resume_length_mismatch_scans_nothing:
  assumes "int (length given) \<noteq> len" and "0 \<le> len"
  shows "scan_url_combinations e s len (Some given) = Inr s"
  using assms by (rule scan_length_mismatch)

theorem resume_length_mismatch_scans_nothing_witness:
  "scan_url_combinations sample_env (init Absent True) 2 (Some ''b'') = Inr (init Absent True)"
  using resume_length_mismatch_scans_nothing [of "''b''" 2 sample_env "init Absent True"] by simp

end
